theory Spec2Isabelle
  imports Main "HOL-Library.AList" "HOL-Library.List_Lexorder" "HOL-Library.Signed_Division"
begin

section \<open>JavaScript values shared by the three stores\<close>

text \<open>
  A JavaScript string is a sequence of UTF-16 code units; \<open>js\<close> embeds an ASCII literal.
  Timestamps (\<open>Date.now()\<close>, epoch seconds) and counters are integers.
  A JavaScript \<open>Map\<close> is an association list with distinct keys in insertion order:
  \<open>map_of\<close> is \<open>Map.get\<close>, \<open>AList.update\<close> is \<open>Map.set\<close> (in place for a resident key,
  appended for a new one), \<open>AList.delete\<close> is \<open>Map.delete\<close>, \<open>length\<close> is \<open>Map.size\<close>.
\<close>

type_synonym jsstring = "nat list"

definition js :: "string \<Rightarrow> jsstring" where
  "js s = map of_char s"

text \<open>
  The values a request body or a cached payload can hold. \<open>JNum n\<close> is the number \<open>n\<close>, an
  integer below \<open>10^21\<close> in magnitude, which JavaScript prints in decimal. Every other
  finite number (a fraction, or a magnitude of \<open>10^21\<close> and more) is a \<open>JFloat\<close> and carries
  the text that \<open>Number.prototype.toString\<close> gives it; it is never zero. \<open>JNaN\<close> and
  \<open>JInfinity positive\<close> are the numbers that are not finite. \<open>JBigInt\<close> is the one
  primitive \<open>JSON.stringify\<close> refuses. An object is its list of own enumerable
  string-keyed properties, each name once.
\<close>

datatype jsval =
    JUndefined
  | JNull
  | JBool bool
  | JNum int
  | JFloat jsstring
  | JNaN
  | JInfinity bool
  | JBigInt int
  | JStr jsstring
  | JArr "jsval list"
  | JObj "(jsstring \<times> jsval) list"

text \<open>ToBoolean, as used by \<open>&&\<close>, \<open>!\<close>, \<open>?:\<close> and \<open>if\<close>.\<close>

fun truthy :: "jsval \<Rightarrow> bool" where
  "truthy JUndefined = False"
| "truthy JNull = False"
| "truthy (JBool b) = b"
| "truthy (JNum n) = (n \<noteq> 0)"
| "truthy (JFloat s) = True"
| "truthy JNaN = False"
| "truthy (JInfinity positive) = True"
| "truthy (JBigInt n) = (n \<noteq> 0)"
| "truthy (JStr s) = (s \<noteq> [])"
| "truthy (JArr xs) = True"
| "truthy (JObj ps) = True"

type_synonym Error = jsstring

section \<open>Response cache: \<open>ServerCache\<close>\<close>

record CacheEntry =
  data :: jsval
  expires :: int
  staleAt :: int

record CacheConfig =
  defaultTTL :: int
  staleWindow :: int
  maxEntries :: int

definition DEFAULT_CONFIG :: CacheConfig where
  "DEFAULT_CONFIG = \<lparr>defaultTTL = 5 * 60 * 1000, staleWindow = 60 * 1000, maxEntries = 1000\<rparr>"

record ServerCache =
  cache :: "(jsstring \<times> CacheEntry) list"
  accessOrder :: "jsstring list"
  config :: CacheConfig

text \<open>\<open>new ServerCache(config)\<close>: both containers start empty.\<close>

definition newServerCache :: "CacheConfig \<Rightarrow> ServerCache" where
  "newServerCache cfg = \<lparr>cache = [], accessOrder = [], config = cfg\<rparr>"

text \<open>\<open>indexOf\<close> then \<open>splice(index, 1)\<close>: the first occurrence goes, if there is one.\<close>

definition removeFromAccessOrder :: "jsstring \<Rightarrow> ServerCache \<Rightarrow> ServerCache" where
  "removeFromAccessOrder key c = c\<lparr>accessOrder := remove1 key (accessOrder c)\<rparr>"

definition updateAccessOrder :: "jsstring \<Rightarrow> ServerCache \<Rightarrow> ServerCache" where
  "updateAccessOrder key c =
     (let c1 = removeFromAccessOrder key c in c1\<lparr>accessOrder := accessOrder c1 @ [key]\<rparr>)"

definition evictOldest :: "ServerCache \<Rightarrow> ServerCache" where
  "evictOldest c =
     (case accessOrder c of
        [] \<Rightarrow> c
      | oldestKey # rest \<Rightarrow> c\<lparr>accessOrder := rest, cache := AList.delete oldestKey (cache c)\<rparr>)"

text \<open>The value \<open>get\<close> returns on a hit: \<open>{ data, isStale }\<close>; \<open>None\<close> is \<open>null\<close>.\<close>

record CacheHit =
  hit_data :: jsval
  hit_isStale :: bool

definition get :: "int \<Rightarrow> jsstring \<Rightarrow> ServerCache \<Rightarrow> ServerCache \<times> CacheHit option" where
  "get now key c =
     (case map_of (cache c) key of
        None \<Rightarrow> (c, None)
      | Some entry \<Rightarrow>
          if now > expires entry + staleWindow (config c)
          then (removeFromAccessOrder key (c\<lparr>cache := AList.delete key (cache c)\<rparr>), None)
          else (updateAccessOrder key c,
                Some \<lparr>hit_data = data entry, hit_isStale = (now > staleAt entry)\<rparr>))"

text \<open>\<open>set(key, data, ttl?)\<close> at time \<open>now\<close>; \<open>None\<close> is an omitted \<open>ttl\<close>.\<close>

definition set_entry :: "int \<Rightarrow> jsstring \<Rightarrow> jsval \<Rightarrow> int option \<Rightarrow> ServerCache \<Rightarrow> ServerCache" where
  "set_entry now key d ttl c =
     (let effectiveTTL = (case ttl of None \<Rightarrow> defaultTTL (config c) | Some t \<Rightarrow> t);
          c1 = (if int (length (cache c)) \<ge> maxEntries (config c) \<and> map_of (cache c) key = None
                then evictOldest c else c);
          c2 = c1\<lparr>cache := AList.update key
                   \<lparr>data = d, expires = now + effectiveTTL,
                    staleAt = now + effectiveTTL - staleWindow (config c)\<rparr> (cache c1)\<rparr>
      in updateAccessOrder key c2)"




definition shouldSkipCache :: "bool \<Rightarrow> bool" where
  "shouldSkipCache hasAuth = hasAuth"









section \<open>Revalidating cache: \<open>SWRCache\<close>\<close>

text \<open>
  The entry and the state \<open>get\<close> returns have fields of the same names in the source
  (\<open>data\<close>, \<open>error\<close>, \<open>isValidating\<close>); the entry's carry the prefix \<open>en_\<close> here and
  the returned state's the prefix \<open>sw_\<close>. \<open>JUndefined\<close> is \<open>data: undefined\<close>, \<open>None\<close> is
  \<open>error: null\<close>.
\<close>

record SWREntry =
  en_data :: jsval
  en_error :: "Error option"
  timestamp :: int
  en_isValidating :: bool

record SWROptions =
  staleTime :: int
  cacheTime :: int
  revalidateOnFocus :: bool
  revalidateOnReconnect :: bool
  dedupingInterval :: int

record SWRState =
  sw_data :: jsval
  sw_error :: "Error option"
  sw_isLoading :: bool
  sw_isValidating :: bool
  sw_isStale :: bool

definition DEFAULT_OPTIONS :: SWROptions where
  "DEFAULT_OPTIONS = \<lparr>staleTime = 5 * 60 * 1000, cacheTime = 30 * 60 * 1000,
     revalidateOnFocus = True, revalidateOnReconnect = True, dedupingInterval = 2000\<rparr>"

text \<open>
  The store. A promise in \<open>inflightRequests\<close> is named by the number of the \<open>fetcher()\<close>
  call that made it; \<open>fetcherCalls\<close> counts those calls. Subscribers are callbacks of the
  caller and are not part of the store's own state: \<open>notifySubscribers\<close> changes none of
  the four maps.
\<close>

record SWRCache =
  entries :: "jsstring \<rightharpoonup> SWREntry"
  inflightRequests :: "jsstring \<rightharpoonup> nat"
  lastFetchTime :: "jsstring \<rightharpoonup> int"
  options :: SWROptions
  fetcherCalls :: nat

definition newSWRCache :: "SWROptions \<Rightarrow> SWRCache" where
  "newSWRCache opts = \<lparr>entries = Map.empty, inflightRequests = Map.empty,
     lastFetchTime = Map.empty, options = opts, fetcherCalls = 0\<rparr>"

definition absent :: SWRState where
  "absent = \<lparr>sw_data = JUndefined, sw_error = None, sw_isLoading = False,
              sw_isValidating = False, sw_isStale = True\<rparr>"

definition swr_get :: "int \<Rightarrow> jsstring \<Rightarrow> SWRCache \<Rightarrow> SWRCache \<times> SWRState" where
  "swr_get now key c =
     (case entries c key of
        None \<Rightarrow> (c, absent)
      | Some entry \<Rightarrow>
          if now - timestamp entry > cacheTime (options c)
          then (c\<lparr>entries := (entries c)(key := None)\<rparr>, absent)
          else (c, \<lparr>sw_data = en_data entry, sw_error = en_error entry, sw_isLoading = False,
                    sw_isValidating = en_isValidating entry,
                    sw_isStale = (now - timestamp entry > staleTime (options c))\<rparr>))"

definition swr_set :: "int \<Rightarrow> jsstring \<Rightarrow> jsval \<Rightarrow> Error option \<Rightarrow> SWRCache \<Rightarrow> SWRCache" where
  "swr_set now key d err c =
     c\<lparr>entries := (entries c)(key \<mapsto>
         \<lparr>en_data = d, en_error = err, timestamp = now,
          en_isValidating = (case entries c key of None \<Rightarrow> False
                             | Some existing \<Rightarrow> en_isValidating existing)\<rparr>)\<rparr>"

definition setValidating :: "jsstring \<Rightarrow> bool \<Rightarrow> SWRCache \<Rightarrow> SWRCache" where
  "setValidating key v c =
     (case entries c key of
        None \<Rightarrow> c
      | Some entry \<Rightarrow> c\<lparr>entries := (entries c)(key \<mapsto> entry\<lparr>en_isValidating := v\<rparr>)\<rparr>)"

text \<open>
  What one call of \<open>fetch\<close> hands back, before anything settles: the promise already in
  flight for the key, the fresh cached value, or the promise of the \<open>fetcher()\<close> call it
  has just made.
\<close>

datatype FetchReturn = Joined nat | FromCache jsval | Started nat

definition fetch :: "int \<Rightarrow> jsstring \<Rightarrow> SWRCache \<Rightarrow> SWRCache \<times> FetchReturn" where
  "fetch now key c =
     (let lastFetch = (case lastFetchTime c key of None \<Rightarrow> 0 | Some t \<Rightarrow> t) in
      case (if now - lastFetch < dedupingInterval (options c)
            then inflightRequests c key else None) of
        Some inflight \<Rightarrow> (c, Joined inflight)
      | None \<Rightarrow>
          (let (c1, cached) = swr_get now key c in
           if truthy (sw_data cached) \<and> \<not> sw_isStale cached then (c1, FromCache (sw_data cached))
           else case inflightRequests c1 key of
                  Some existing \<Rightarrow> (c1, Joined existing)
                | None \<Rightarrow>
                    (let c2 = setValidating key True c1;
                         c3 = c2\<lparr>lastFetchTime := (lastFetchTime c2)(key \<mapsto> now)\<rparr>;
                         request = fetcherCalls c3;
                         c4 = c3\<lparr>fetcherCalls := Suc (fetcherCalls c3)\<rparr>
                     in (c4\<lparr>inflightRequests := (inflightRequests c4)(key \<mapsto> request)\<rparr>,
                         Started request))))"

text \<open>The three handlers chained on the fetcher's promise, and what the request settles with.\<close>

datatype Outcome = Resolved jsval | Rejected Error

definition onFulfilled :: "int \<Rightarrow> jsstring \<Rightarrow> jsval \<Rightarrow> SWRCache \<Rightarrow> SWRCache \<times> Outcome" where
  "onFulfilled now key d c = (swr_set now key d None c, Resolved d)"

definition onRejected :: "int \<Rightarrow> jsstring \<Rightarrow> Error \<Rightarrow> SWRCache \<Rightarrow> SWRCache \<times> Outcome" where
  "onRejected now key err c =
     (case entries c key of
        Some current \<Rightarrow>
          (c\<lparr>entries := (entries c)(key \<mapsto> current\<lparr>en_error := Some err, en_isValidating := False\<rparr>)\<rparr>,
           Rejected err)
      | None \<Rightarrow> (swr_set now key JUndefined (Some err) c, Rejected err))"

definition onFinally :: "jsstring \<Rightarrow> SWRCache \<Rightarrow> SWRCache" where
  "onFinally key c =
     setValidating key False (c\<lparr>inflightRequests := (inflightRequests c)(key := None)\<rparr>)"

text \<open>The fetcher's promise settles with \<open>res\<close> at time \<open>now\<close>: \<open>then\<close> or \<open>catch\<close>, then \<open>finally\<close>.\<close>

definition settle :: "int \<Rightarrow> jsstring \<Rightarrow> Outcome \<Rightarrow> SWRCache \<Rightarrow> SWRCache \<times> Outcome" where
  "settle now key res c =
     (let (c1, out) = (case res of Resolved d \<Rightarrow> onFulfilled now key d c
                                 | Rejected err \<Rightarrow> onRejected now key err c)
      in (onFinally key c1, out))"

text \<open>
  \<open>fetchAll key ts c\<close>: one \<open>fetch(key, fetcher)\<close> call at each of the times \<open>ts\<close>, in
  that order, with no handler of any request running in between: the calls are
  concurrent.
\<close>

fun fetchAll :: "jsstring \<Rightarrow> int list \<Rightarrow> SWRCache \<Rightarrow> SWRCache \<times> FetchReturn list" where
  "fetchAll key [] c = (c, [])"
| "fetchAll key (t # ts) c =
     (let (c1, r) = fetch t key c; (c2, rs) = fetchAll key ts c1 in (c2, r # rs))"

text \<open>
  What a caller of \<open>fetch\<close> finally observes, given how each promise settles: the
  promise's outcome, or the cached value it was handed.
\<close>

fun outcomeOf :: "(nat \<Rightarrow> Outcome) \<Rightarrow> FetchReturn \<Rightarrow> Outcome" where
  "outcomeOf settled (Joined p) = settled p"
| "outcomeOf settled (Started p) = settled p"
| "outcomeOf settled (FromCache v) = Resolved v"

text \<open>The test \<open>cached.data && !cached.isStale\<close> on a read at \<open>now\<close>.\<close>

definition freshHit :: "int \<Rightarrow> jsstring \<Rightarrow> SWRCache \<Rightarrow> bool" where
  "freshHit now key c =
     (truthy (sw_data (snd (swr_get now key c))) \<and> \<not> sw_isStale (snd (swr_get now key c)))"

text \<open>
  After the fetcher has been called for \<open>key\<close> at \<open>t\<close>: promise \<open>p\<close> is in flight and the
  entry, if any, is falsy or was already stale at \<open>t\<close>.
\<close>

definition joining :: "int \<Rightarrow> jsstring \<Rightarrow> nat \<Rightarrow> SWRCache \<Rightarrow> bool" where
  "joining t key p c =
     (inflightRequests c key = Some p \<and>
      (case entries c key of None \<Rightarrow> True
       | Some e \<Rightarrow> \<not> truthy (en_data e) \<or> t - timestamp e > staleTime (options c)))"

text \<open>
  After the \<open>then\<close> handler has stored \<open>d\<close> and before \<open>finally\<close>: promise \<open>p\<close> is still in
  flight and the entry, if any, holds \<open>d\<close>.
\<close>

definition serving :: "jsstring \<Rightarrow> nat \<Rightarrow> jsval \<Rightarrow> SWRCache \<Rightarrow> bool" where
  "serving key p d c =
     (inflightRequests c key = Some p \<and>
      (case entries c key of None \<Rightarrow> True | Some e \<Rightarrow> en_data e = d))"

section \<open>Window rate limiter of the worker\<close>

text \<open>
  \<open>Number.prototype.toString\<close> on an integer below \<open>10^21\<close> in magnitude: decimal digits,
  \<open>-\<close> in front when negative. The integers printed here are clock readings, window
  starts, counters and status codes.
\<close>

fun digitsOf :: "nat \<Rightarrow> jsstring" where
  "digitsOf n = (if n < 10 then [48 + n] else digitsOf (n div 10) @ [48 + n mod 10])"

declare digitsOf.simps [simp del]

definition numberToString :: "int \<Rightarrow> jsstring" where
  "numberToString i = (if i < 0 then 45 # digitsOf (nat (- i)) else digitsOf (nat i))"

text \<open>
  The code units matched by \<open>\s\<close> in a regular expression, which are also the ones
  \<open>trim\<close> and \<open>parseInt\<close> strip: white space and line terminators.
\<close>

definition isWhiteSpace :: "nat \<Rightarrow> bool" where
  "isWhiteSpace u \<longleftrightarrow>
     u \<in> {9, 10, 11, 12, 13, 32, 160, 5760, 8232, 8233, 8239, 8287, 12288, 65279}
     \<or> (8192 \<le> u \<and> u \<le> 8202)"

text \<open>
  \<open>parseInt(s, 10)\<close>: leading white space, an optional sign, then the longest run of
  decimal digits; \<open>None\<close> is \<open>NaN\<close> (no digit, or \<open>s\<close> undefined). The code's result is a
  double: it is this integer up to \<open>2^53\<close> in magnitude and the nearest double beyond,
  which is not modelled.
\<close>

definition digitValue :: "jsstring \<Rightarrow> int" where
  "digitValue ds = foldl (\<lambda>acc d. 10 * acc + (int d - 48)) 0 ds"

definition parseInt :: "jsstring \<Rightarrow> int option" where
  "parseInt s =
     (let s1 = dropWhile isWhiteSpace s;
          neg = (s1 \<noteq> [] \<and> hd s1 = 45);
          s2 = (if s1 \<noteq> [] \<and> (hd s1 = 45 \<or> hd s1 = 43) then tl s1 else s1);
          ds = takeWhile (\<lambda>u. 48 \<le> u \<and> u \<le> 57) s2
      in if ds = [] then None else Some (if neg then - digitValue ds else digitValue ds))"

text \<open>\<open>parseInt(s, 10) || d\<close>: \<open>NaN\<close> and \<open>0\<close> are falsy.\<close>

definition parseIntOr :: "jsstring \<Rightarrow> int \<Rightarrow> int" where
  "parseIntOr s d = (case parseInt s of None \<Rightarrow> d | Some n \<Rightarrow> if n = 0 then d else n)"

record RateLimitEntry =
  count :: int
  resetAt :: int

record Env =
  RATE_LIMIT_REQUESTS :: jsstring
  RATE_LIMIT_WINDOW_SECONDS :: jsstring

text \<open>
  The isolate's state: the in-memory map (a \<open>Map\<close>, in insertion order), the time of the
  last sweep, and the contents of the KV namespace bound as \<open>env.RATE_LIMIT\<close> (\<open>None\<close>
  when the binding is not configured). A \<open>put\<close> handed to \<open>ctx.waitUntil\<close> is taken to
  have landed before the next call, and its \<open>expirationTtl\<close> of one window length is not
  modelled: a key names its window, so an entry outlives the window it counts.
\<close>

record Worker =
  inMemoryRateLimit :: "(jsstring \<times> RateLimitEntry) list"
  lastRateLimitCleanup :: int
  RATE_LIMIT :: "(jsstring \<rightharpoonup> RateLimitEntry) option"

text \<open>The configuration of the specification's scenario: 100 requests per 60 seconds.\<close>

definition exampleEnv :: Env where
  "exampleEnv = \<lparr>RATE_LIMIT_REQUESTS = js ''100'', RATE_LIMIT_WINDOW_SECONDS = js ''60''\<rparr>"

text \<open>A configuration that allows one request per 60 seconds.\<close>

definition strictEnv :: Env where
  "strictEnv = \<lparr>RATE_LIMIT_REQUESTS = js ''1'', RATE_LIMIT_WINDOW_SECONDS = js ''60''\<rparr>"

text \<open>Two configurations with a negative number: a window of -60 seconds, a limit of -5.\<close>

definition negativeWindowEnv :: Env where
  "negativeWindowEnv = \<lparr>RATE_LIMIT_REQUESTS = js ''1'', RATE_LIMIT_WINDOW_SECONDS = js ''-60''\<rparr>"

definition negativeLimitEnv :: Env where
  "negativeLimitEnv = \<lparr>RATE_LIMIT_REQUESTS = js ''-5'', RATE_LIMIT_WINDOW_SECONDS = js ''60''\<rparr>"

definition newWorker :: "(jsstring \<rightharpoonup> RateLimitEntry) option \<Rightarrow> Worker" where
  "newWorker kv = \<lparr>inMemoryRateLimit = [], lastRateLimitCleanup = 0, RATE_LIMIT = kv\<rparr>"

definition MAX_IN_MEMORY_RATE_LIMIT_ENTRIES :: nat where
  "MAX_IN_MEMORY_RATE_LIMIT_ENTRIES = 10000"

text \<open>Deleting while iterating a \<open>Map\<close> visits every entry once: a filter.\<close>

definition dropExpired :: "int \<Rightarrow> (jsstring \<times> RateLimitEntry) list \<Rightarrow> (jsstring \<times> RateLimitEntry) list" where
  "dropExpired nowSeconds m = filter (\<lambda>(key, entry). \<not> resetAt entry \<le> nowSeconds) m"

definition cleanupInMemoryRateLimit :: "int \<Rightarrow> Worker \<Rightarrow> Worker" where
  "cleanupInMemoryRateLimit nowSeconds w =
     (if nowSeconds - lastRateLimitCleanup w < 24 * 60 * 60 then w
      else w\<lparr>lastRateLimitCleanup := nowSeconds,
             inMemoryRateLimit := dropExpired nowSeconds (inMemoryRateLimit w)\<rparr>)"

text \<open>
  The \<open>while\<close> loop of \<open>ensureInMemoryLimitCapacity\<close>: the first key of the map goes, until
  the map is under the ceiling; \<open>!oldestKey\<close> ends the loop on an empty map and on the
  empty string as first key.
\<close>

function evictLoop :: "(jsstring \<times> RateLimitEntry) list \<Rightarrow> (jsstring \<times> RateLimitEntry) list" where
  "evictLoop m =
     (if length m \<ge> MAX_IN_MEMORY_RATE_LIMIT_ENTRIES
      then (case m of
              [] \<Rightarrow> m
            | (oldestKey, entry) # rest \<Rightarrow>
                if oldestKey = [] then m else evictLoop (AList.delete oldestKey m))
      else m)"
  by pat_completeness auto
termination
proof (relation "measure length")
  show "wf (measure length)" by simp
next
  fix m :: "(jsstring \<times> RateLimitEntry) list" and x21 x22 x y
  assume "m = x21 # x22" "(x, y) = x21"
  then have "AList.delete x m = AList.delete x x22"
    by (auto simp: AList.delete_eq)
  then have "length (AList.delete x m) \<le> length x22"
    by (simp add: length_delete_le)
  with \<open>m = x21 # x22\<close> show "(AList.delete x m, m) \<in> measure length"
    by simp
qed

declare evictLoop.simps [simp del]

definition ensureInMemoryLimitCapacity :: "int \<Rightarrow> Worker \<Rightarrow> Worker" where
  "ensureInMemoryLimitCapacity nowSeconds w =
     (if length (inMemoryRateLimit w) < MAX_IN_MEMORY_RATE_LIMIT_ENTRIES then w
      else w\<lparr>inMemoryRateLimit := evictLoop (dropExpired nowSeconds (inMemoryRateLimit w))\<rparr>)"

text \<open>The result of \<open>checkRateLimit\<close>; \<open>res_resetAt\<close> is its field \<open>resetAt\<close>.\<close>

record RateLimitResult =
  allowed :: bool
  remaining :: int
  res_resetAt :: int
  retryAfter :: "int option"

text \<open>The fixed window of a time: \<open>now - (now % windowSeconds)\<close>, with JavaScript's remainder.\<close>

definition windowStartOf :: "Env \<Rightarrow> int \<Rightarrow> int" where
  "windowStartOf env now = now - (now smod parseIntOr (RATE_LIMIT_WINDOW_SECONDS env) 60)"

definition rateKey :: "jsstring \<Rightarrow> int \<Rightarrow> jsstring" where
  "rateKey clientIP windowStart = js ''rate:'' @ clientIP @ js '':'' @ numberToString windowStart"

text \<open>
  \<open>checkRateLimit(clientIP, env, ctx)\<close> at \<open>now = Math.floor(Date.now() / 1000)\<close>.
  \<open>kvThrows\<close> says whether \<open>env.RATE_LIMIT.get\<close> throws on this call, which sends the call
  to the in-memory path as an unconfigured binding does.
\<close>

definition checkRateLimit :: "jsstring \<Rightarrow> Env \<Rightarrow> int \<Rightarrow> bool \<Rightarrow> Worker \<Rightarrow> Worker \<times> RateLimitResult" where
  "checkRateLimit clientIP env now kvThrows w0 =
     (let limit = parseIntOr (RATE_LIMIT_REQUESTS env) 100;
          windowSeconds = parseIntOr (RATE_LIMIT_WINDOW_SECONDS env) 60;
          w = cleanupInMemoryRateLimit now w0;
          windowStart = now - (now smod windowSeconds);
          reset = windowStart + windowSeconds;
          key = rateKey clientIP windowStart
      in case (if kvThrows then None else RATE_LIMIT w) of
           Some kv \<Rightarrow>
             (let current = (case kv key of None \<Rightarrow> 0 | Some stored \<Rightarrow> count stored) in
              if current \<ge> limit
              then (w, \<lparr>allowed = False, remaining = 0, res_resetAt = reset,
                        retryAfter = Some (reset - now)\<rparr>)
              else (w\<lparr>RATE_LIMIT := Some (kv(key \<mapsto> \<lparr>count = current + 1, resetAt = reset\<rparr>))\<rparr>,
                    \<lparr>allowed = True, remaining = limit - current - 1, res_resetAt = reset,
                     retryAfter = None\<rparr>))
         | None \<Rightarrow>
             (let existing = map_of (inMemoryRateLimit w) key;
                  current = (case existing of None \<Rightarrow> 0 | Some e \<Rightarrow> count e);
                  existingReset = (case existing of None \<Rightarrow> reset | Some e \<Rightarrow> resetAt e);
                  w1 = (if existing \<noteq> None \<and> existingReset \<noteq> reset
                        then w\<lparr>inMemoryRateLimit := AList.delete key (inMemoryRateLimit w)\<rparr>
                        else w)
              in if current \<ge> limit
                 then (w1, \<lparr>allowed = False, remaining = 0, res_resetAt = reset,
                            retryAfter = Some (reset - now)\<rparr>)
                 else (let w2 = ensureInMemoryLimitCapacity now w1;
                           w3 = w2\<lparr>inMemoryRateLimit := AList.update key
                                  \<lparr>count = current + 1, resetAt = reset\<rparr> (inMemoryRateLimit w2)\<rparr>
                       in (w3, \<lparr>allowed = True, remaining = limit - 1, res_resetAt = reset,
                                retryAfter = None\<rparr>))))"

text \<open>One request to the worker's rate limiter, and a sequence of them on one isolate.\<close>

record Call =
  clientIP :: jsstring
  at :: int
  kvThrows :: bool

fun runCalls :: "Env \<Rightarrow> Call list \<Rightarrow> Worker \<Rightarrow> Worker \<times> RateLimitResult list" where
  "runCalls env [] w = (w, [])"
| "runCalls env (c # cs) w =
     (let (w1, r) = checkRateLimit (clientIP c) env (at c) (kvThrows c) w;
          (w2, rs) = runCalls env cs w1
      in (w2, r # rs))"

text \<open>
  The bound on the in-memory map, with the facts that let the eviction loop reach it: a
  \<open>Map\<close> holds each key once, and no key is the empty string.
\<close>

definition storeOk :: "Worker \<Rightarrow> bool" where
  "storeOk w \<longleftrightarrow>
     length (inMemoryRateLimit w) \<le> MAX_IN_MEMORY_RATE_LIMIT_ENTRIES
     \<and> distinct (map fst (inMemoryRateLimit w))
     \<and> [] \<notin> fst ` set (inMemoryRateLimit w)"

text \<open>
  Counting as the specification words it: the calls of caller \<open>ip\<close> whose timestamp falls
  in the window starting at \<open>ws\<close> and that were answered \<open>allowed = true\<close>, over a sequence of
  calls run from the state \<open>w\<close>.
\<close>

fun allowedCalls :: "Env \<Rightarrow> jsstring \<Rightarrow> int \<Rightarrow> Call list \<Rightarrow> Worker \<Rightarrow> nat" where
  "allowedCalls env ip ws [] w = 0"
| "allowedCalls env ip ws (c # cs) w =
     (if clientIP c = ip \<and> windowStartOf env (at c) = ws
         \<and> allowed (snd (checkRateLimit (clientIP c) env (at c) (kvThrows c) w))
      then 1 else 0)
     + allowedCalls env ip ws cs (fst (checkRateLimit (clientIP c) env (at c) (kvThrows c) w))"

text \<open>The in-memory map is under its ceiling when each call of the sequence arrives.\<close>

fun belowCeiling :: "Env \<Rightarrow> Call list \<Rightarrow> Worker \<Rightarrow> bool" where
  "belowCeiling env [] w = True"
| "belowCeiling env (c # cs) w =
     (length (inMemoryRateLimit w) < MAX_IN_MEMORY_RATE_LIMIT_ENTRIES
      \<and> belowCeiling env cs (fst (checkRateLimit (clientIP c) env (at c) (kvThrows c) w)))"






text \<open>
  A crowd: \<open>n\<close> calls at second 125, one from each of the callers named \<open>0\<close>, \<open>1\<close>, ...,
  each with a KV read that throws, so that the call is counted in memory; and the entry
  that such a call leaves in the map when the window is 60 seconds long.
\<close>

definition crowdCall :: "nat \<Rightarrow> Call" where
  "crowdCall i = \<lparr>clientIP = numberToString (int i), at = 125, kvThrows = True\<rparr>"

definition crowd :: "nat \<Rightarrow> Call list" where
  "crowd n = map crowdCall [0..<n]"

definition crowdEntry :: "nat \<Rightarrow> jsstring \<times> RateLimitEntry" where
  "crowdEntry i = (rateKey (numberToString (int i)) 120, \<lparr>count = 1, resetAt = 180\<rparr>)"
section \<open>Cache key derivation: \<open>ServerCache.generateKey\<close>\<close>

datatype exn = TypeError

text \<open>
  \<open>query.replace(/\s+/g, ' ')\<close>: every maximal run of white space becomes one space.
\<close>

function collapseWhitespace :: "jsstring \<Rightarrow> jsstring" where
  "collapseWhitespace [] = []"
| "collapseWhitespace (u # us) =
     (if isWhiteSpace u then 32 # collapseWhitespace (dropWhile isWhiteSpace us)
      else u # collapseWhitespace us)"
  by pat_completeness auto
termination
  by (relation "measure length") (auto simp: length_dropWhile_le less_Suc_eq_le)

definition trim :: "jsstring \<Rightarrow> jsstring" where
  "trim s = rev (dropWhile isWhiteSpace (rev (dropWhile isWhiteSpace s)))"

text \<open>
  \<open>QuoteJSONString\<close>: the escapes of JSON, \<open>\uXXXX\<close> for the other control characters and
  for a surrogate that has no partner.
\<close>

definition hexDigit :: "nat \<Rightarrow> nat" where
  "hexDigit d = (if d < 10 then 48 + d else 87 + d)"

definition unicodeEscape :: "nat \<Rightarrow> jsstring" where
  "unicodeEscape u =
     [92, 117, hexDigit (u div 4096 mod 16), hexDigit (u div 256 mod 16),
      hexDigit (u div 16 mod 16), hexDigit (u mod 16)]"

definition escapeUnit :: "nat \<Rightarrow> jsstring" where
  "escapeUnit u =
     (if u = 8 then [92, 98] else if u = 9 then [92, 116] else if u = 10 then [92, 110]
      else if u = 12 then [92, 102] else if u = 13 then [92, 114]
      else if u = 34 then [92, 34] else if u = 92 then [92, 92]
      else if u < 32 then unicodeEscape u else [u])"

definition isLeadingSurrogate :: "nat \<Rightarrow> bool" where
  "isLeadingSurrogate u \<longleftrightarrow> 55296 \<le> u \<and> u \<le> 56319"

definition isTrailingSurrogate :: "nat \<Rightarrow> bool" where
  "isTrailingSurrogate u \<longleftrightarrow> 56320 \<le> u \<and> u \<le> 57343"

fun quoteUnits :: "jsstring \<Rightarrow> jsstring" where
  "quoteUnits [] = []"
| "quoteUnits [u] =
     (if isLeadingSurrogate u \<or> isTrailingSurrogate u then unicodeEscape u else escapeUnit u)"
| "quoteUnits (u # v # vs) =
     (if isLeadingSurrogate u \<and> isTrailingSurrogate v then u # v # quoteUnits vs
      else if isLeadingSurrogate u \<or> isTrailingSurrogate u then unicodeEscape u @ quoteUnits (v # vs)
      else escapeUnit u @ quoteUnits (v # vs))"

definition quoteJSONString :: "jsstring \<Rightarrow> jsstring" where
  "quoteJSONString s = 34 # quoteUnits s @ [34]"

fun joinWith :: "jsstring \<Rightarrow> jsstring list \<Rightarrow> jsstring" where
  "joinWith sep [] = []"
| "joinWith sep [x] = x"
| "joinWith sep (x # y # ys) = x @ sep @ joinWith sep (y # ys)"

text \<open>The first error in a list of results, else the list of values.\<close>

fun collect :: "(exn + 'a) list \<Rightarrow> exn + 'a list" where
  "collect [] = Inr []"
| "collect (Inl e # rs) = Inl e"
| "collect (Inr x # rs) = (case collect rs of Inl e \<Rightarrow> Inl e | Inr xs \<Rightarrow> Inr (x # xs))"

text \<open>
  \<open>SerializeJSONProperty\<close> with a property list \<open>K\<close> (the replacer array) and no
  indentation; \<open>Inr None\<close> is the result \<open>undefined\<close>. An object serialises, at every depth,
  the properties named in \<open>K\<close>, in the order of \<open>K\<close>, leaving out those whose value
  serialises to \<open>undefined\<close>; an array serialises all its elements, \<open>undefined\<close> as \<open>null\<close>;
  a number that is not finite serialises to \<open>null\<close>; a BigInt throws. Properties inherited from a prototype, \<open>toJSON\<close> methods and cyclic
  objects are outside \<open>jsval\<close>.
\<close>

fun serialize :: "jsstring list \<Rightarrow> jsval \<Rightarrow> exn + jsstring option" where
  "serialize K JUndefined = Inr None"
| "serialize K JNull = Inr (Some (js ''null''))"
| "serialize K (JBool b) = Inr (Some (if b then js ''true'' else js ''false''))"
| "serialize K (JNum n) = Inr (Some (numberToString n))"
| "serialize K (JFloat s) = Inr (Some s)"
| "serialize K JNaN = Inr (Some (js ''null''))"
| "serialize K (JInfinity positive) = Inr (Some (js ''null''))"
| "serialize K (JBigInt n) = Inl TypeError"
| "serialize K (JStr s) = Inr (Some (quoteJSONString s))"
| "serialize K (JArr xs) =
     (case collect (map (serialize K) xs) of
        Inl e \<Rightarrow> Inl e
      | Inr parts \<Rightarrow>
          Inr (Some (js ''['' @ joinWith (js '','')
                 (map (\<lambda>p. case p of None \<Rightarrow> js ''null'' | Some s \<Rightarrow> s) parts) @ js '']'')))"
| "serialize K (JObj ps) =
     (let serialized = map (\<lambda>(P, v). (P, serialize K v)) ps in
      case collect (map (\<lambda>P. case map_of serialized P of
                                  None \<Rightarrow> Inr (P, None)
                                | Some r \<Rightarrow> (case r of Inl e \<Rightarrow> Inl e | Inr strP \<Rightarrow> Inr (P, strP))) K) of
        Inl e \<Rightarrow> Inl e
      | Inr members \<Rightarrow>
          Inr (Some (js ''{'' @ joinWith (js '','')
                 (concat (map (\<lambda>(P, strP). case strP of None \<Rightarrow> []
                                 | Some s \<Rightarrow> [quoteJSONString P @ js '':'' @ s]) members))
                 @ js ''}'')))"

text \<open>\<open>Object.keys\<close> of a truthy value: property names, or the indices of an array or string.\<close>

fun objectKeys :: "jsval \<Rightarrow> jsstring list" where
  "objectKeys (JObj ps) = map fst ps"
| "objectKeys (JArr xs) = map (\<lambda>i. numberToString (int i)) [0..<length xs]"
| "objectKeys (JStr s) = map (\<lambda>i. numberToString (int i)) [0..<length s]"
| "objectKeys v = []"

text \<open>The replacer array becomes the property list: its strings, each once, first occurrence kept.\<close>

definition propertyList :: "jsstring list \<Rightarrow> jsstring list" where
  "propertyList keys = rev (remdups (rev keys))"

text \<open>
  \<open>JSON.stringify(value, keys)\<close>; the result \<open>undefined\<close> prints as \<open>undefined\<close> in the
  template literal.
\<close>

definition stringify :: "jsval \<Rightarrow> jsstring list \<Rightarrow> exn + jsstring" where
  "stringify v keys =
     (case serialize (propertyList keys) v of
        Inl e \<Rightarrow> Inl e
      | Inr None \<Rightarrow> Inr (js ''undefined'')
      | Inr (Some s) \<Rightarrow> Inr s)"

text \<open>
  \<open>generateKey(query, variables)\<close>. The parameter \<open>query\<close> is declared a string; on any
  other value \<open>query.replace\<close> is not a function and the call throws.
\<close>

definition generateKey :: "jsval \<Rightarrow> jsval \<Rightarrow> exn + jsstring" where
  "generateKey query variables =
     (case query of
        JStr q \<Rightarrow>
          (let normalizedQuery = trim (collapseWhitespace q) in
           case (if truthy variables then stringify variables (sort (objectKeys variables))
                 else Inr []) of
             Inl e \<Rightarrow> Inl e
           | Inr varsString \<Rightarrow> Inr (normalizedQuery @ js ''::'' @ varsString))
      | _ \<Rightarrow> Inl TypeError)"

text \<open>
  Values that hold no BigInt at any depth: \<open>undefined\<close>, \<open>null\<close>, booleans, numbers, strings,
  and arrays and plain objects of such values. Every value that \<open>JSON.parse\<close> produces is
  one of them.
\<close>

fun noBigInt :: "jsval \<Rightarrow> bool" where
  "noBigInt (JBigInt n) = False"
| "noBigInt (JArr xs) = list_all noBigInt xs"
| "noBigInt (JObj ps) = list_all (\<lambda>(P, v). noBigInt v) ps"
| "noBigInt v = True"

text \<open>
  Cosmetic differences, as the specification words them. Two query texts are the same up
  to white space when one comes from the other by replacing a run of white space by
  another run, or by adding or removing white space at either end, any number of times.
  Two variables objects are the same up to field order when they hold the same fields.
\<close>

inductive sameUpToWhitespace :: "jsstring \<Rightarrow> jsstring \<Rightarrow> bool" where
  same: "sameUpToWhitespace q q"
| run: "ws \<noteq> [] \<Longrightarrow> ws' \<noteq> [] \<Longrightarrow> list_all isWhiteSpace ws \<Longrightarrow> list_all isWhiteSpace ws' \<Longrightarrow>
        sameUpToWhitespace (a @ ws @ b) (a @ ws' @ b)"
| leading: "list_all isWhiteSpace ws \<Longrightarrow> sameUpToWhitespace (ws @ b) b"
| trailing: "list_all isWhiteSpace ws \<Longrightarrow> sameUpToWhitespace (a @ ws) a"
| sym: "sameUpToWhitespace p q \<Longrightarrow> sameUpToWhitespace q p"
| trans: "sameUpToWhitespace p q \<Longrightarrow> sameUpToWhitespace q r \<Longrightarrow> sameUpToWhitespace p r"

definition sameUpToFieldOrder :: "(jsstring \<times> jsval) list \<Rightarrow> (jsstring \<times> jsval) list \<Rightarrow> bool" where
  "sameUpToFieldOrder ps qs \<longleftrightarrow>
     distinct (map fst ps) \<and> distinct (map fst qs) \<and> set ps = set qs"

section \<open>The GraphQL proxy route: \<open>POST\<close>\<close>

definition CACHE_TTLS :: "jsstring \<Rightarrow> int" where
  "CACHE_TTLS queryType =
     (if queryType = js ''userSearch'' then 15 * 60 * 1000
      else if queryType = js ''userModels'' then 10 * 60 * 1000
      else if queryType = js ''modelPerformance'' then 5 * 60 * 1000
      else if queryType = js ''accountProfile'' then 10 * 60 * 1000
      else if queryType = js ''leaderboard'' then 5 * 60 * 1000
      else 5 * 60 * 1000)"

text \<open>\<open>toLowerCase\<close> on the ASCII letters, and \<open>includes\<close> (\<open>includesStr\<close> here).\<close>

definition toLowerCase :: "jsstring \<Rightarrow> jsstring" where
  "toLowerCase s = map (\<lambda>u. if 65 \<le> u \<and> u \<le> 90 then u + 32 else u) s"

definition includesStr :: "jsstring \<Rightarrow> jsstring \<Rightarrow> bool" where
  "includesStr s t = list_ex (\<lambda>i. take (length t) (drop i s) = t) [0..<Suc (length s)]"

definition detectQueryType :: "jsstring \<Rightarrow> jsstring" where
  "detectQueryType query =
     (let normalizedQuery = toLowerCase query in
      if includesStr normalizedQuery (js ''accountleaderboard'') then js ''leaderboard''
      else if includesStr normalizedQuery (js ''accountprofile'')
           then (if includesStr normalizedQuery (js ''models'') then js ''userModels''
                 else js ''accountProfile'')
      else if includesStr normalizedQuery (js ''v3userprofile'')
           then (if includesStr normalizedQuery (js ''roundmodelperformances'')
                 then js ''modelPerformance'' else js ''userModels'')
      else if includesStr normalizedQuery (js ''search'') then js ''userSearch''
      else js ''default'')"

definition RATE_LIMIT_MAX :: int where
  "RATE_LIMIT_MAX = 60"

definition RATE_LIMIT_WINDOW_MS :: int where
  "RATE_LIMIT_WINDOW_MS = 60 * 1000"

text \<open>
  The module's state: the singleton \<open>serverCache\<close>, the route's own rate-limit map and
  the time of its last sweep.
\<close>

record Server =
  serverCache :: ServerCache
  rateLimit :: "(jsstring \<times> RateLimitEntry) list"
  lastCleanup :: int

text \<open>
  A request: the two headers \<open>getClientKey\<close> reads (\<open>None\<close> when absent) and the parsed
  body (\<open>None\<close> when \<open>request.json()\<close> throws).
\<close>

record Request =
  cfConnectingIp :: "jsstring option"
  xForwardedFor :: "jsstring option"
  jsonBody :: "jsval option"

text \<open>What \<open>fetch\<close> to the upstream API does: it throws, answers with a status that is
  not ok, answers ok with a body that is not JSON, or answers ok with a JSON body.\<close>

datatype Upstream =
    FetchThrows
  | NotOk int jsstring
  | OkNotJson
  | OkJson jsval

datatype ResponseBody =
    Json jsval
  | ErrorMessage jsstring
  | RateLimited "int option"

record Response =
  status :: int
  body :: ResponseBody
  headers :: "(jsstring \<times> jsstring) list"

definition cleanupRateLimit :: "int \<Rightarrow> Server \<Rightarrow> Server" where
  "cleanupRateLimit now s =
     (if now - lastCleanup s < 24 * 60 * 60 * 1000 then s
      else s\<lparr>lastCleanup := now,
             rateLimit := filter (\<lambda>(key, entry). \<not> resetAt entry \<le> now) (rateLimit s)\<rparr>)"

definition getClientKey :: "Request \<Rightarrow> jsstring" where
  "getClientKey request =
     (case cfConnectingIp request of
        Some ip \<Rightarrow> if ip \<noteq> [] then ip else
          (case xForwardedFor request of
             Some f \<Rightarrow> if f \<noteq> [] then
               (let first = trim (takeWhile (\<lambda>u. u \<noteq> 44) f)
                in if first \<noteq> [] then first else js ''unknown'')
               else js ''unknown''
           | None \<Rightarrow> js ''unknown'')
      | None \<Rightarrow>
          (case xForwardedFor request of
             Some f \<Rightarrow> if f \<noteq> [] then
               (let first = trim (takeWhile (\<lambda>u. u \<noteq> 44) f)
                in if first \<noteq> [] then first else js ''unknown'')
               else js ''unknown''
           | None \<Rightarrow> js ''unknown''))"

text \<open>The route's own \<open>checkRateLimit(request)\<close>, at \<open>now = Date.now()\<close>.\<close>

definition routeCheckRateLimit :: "int \<Rightarrow> Request \<Rightarrow> Server \<Rightarrow> Server \<times> RateLimitResult" where
  "routeCheckRateLimit now request s0 =
     (let s = cleanupRateLimit now s0;
          key = getClientKey request
      in case map_of (rateLimit s) key of
           None \<Rightarrow>
             (s\<lparr>rateLimit := AList.update key \<lparr>count = 1, resetAt = now + RATE_LIMIT_WINDOW_MS\<rparr> (rateLimit s)\<rparr>,
              \<lparr>allowed = True, remaining = RATE_LIMIT_MAX - 1,
               res_resetAt = now + RATE_LIMIT_WINDOW_MS, retryAfter = None\<rparr>)
         | Some entry \<Rightarrow>
             if now > resetAt entry
             then (s\<lparr>rateLimit := AList.update key \<lparr>count = 1, resetAt = now + RATE_LIMIT_WINDOW_MS\<rparr> (rateLimit s)\<rparr>,
                   \<lparr>allowed = True, remaining = RATE_LIMIT_MAX - 1,
                    res_resetAt = now + RATE_LIMIT_WINDOW_MS, retryAfter = None\<rparr>)
             else if count entry \<ge> RATE_LIMIT_MAX
             then (s, \<lparr>allowed = False, remaining = 0, res_resetAt = resetAt entry,
                       retryAfter = Some (max 1 (- ((now - resetAt entry) div 1000)))\<rparr>)
             else (s\<lparr>rateLimit := AList.update key (entry\<lparr>count := count entry + 1\<rparr>) (rateLimit s)\<rparr>,
                   \<lparr>allowed = True, remaining = RATE_LIMIT_MAX - (count entry + 1),
                    res_resetAt = resetAt entry, retryAfter = None\<rparr>))"

text \<open>
  Reading a property of a parsed JSON value, as the destructuring of \<open>body\<close> and
  \<open>result.errors\<close> do: \<open>null\<close> and \<open>undefined\<close> throw, an object answers with its field or
  \<open>undefined\<close>, and no other value has one of the names read here.
\<close>

definition getProperty :: "jsval \<Rightarrow> jsstring \<Rightarrow> exn + jsval" where
  "getProperty v name =
     (case v of
        JUndefined \<Rightarrow> Inl TypeError
      | JNull \<Rightarrow> Inl TypeError
      | JObj ps \<Rightarrow> (case map_of ps name of None \<Rightarrow> Inr JUndefined | Some x \<Rightarrow> Inr x)
      | _ \<Rightarrow> Inr JUndefined)"

definition rateLimitHeaders :: "RateLimitResult \<Rightarrow> (jsstring \<times> jsstring) list" where
  "rateLimitHeaders r =
     [(js ''X-RateLimit-Limit'', numberToString RATE_LIMIT_MAX),
      (js ''X-RateLimit-Remaining'', numberToString (remaining r)),
      (js ''X-RateLimit-Reset'', numberToString (res_resetAt r))]"

text \<open>The \<open>catch\<close> of the handler: status 500; the text of the caught error's message is
  not modelled.\<close>

definition proxyError :: Response where
  "proxyError = \<lparr>status = 500, body = ErrorMessage (js ''Unknown error''), headers = []\<rparr>"

text \<open>
  \<open>json(data, { status })\<close> builds a \<open>Response\<close> with a body: the constructor throws on a
  status outside 200 to 599 and on a status that admits no body.
\<close>

definition canCarryBody :: "int \<Rightarrow> bool" where
  "canCarryBody st \<longleftrightarrow> 200 \<le> st \<and> st \<le> 599 \<and> st \<noteq> 204 \<and> st \<noteq> 205 \<and> st \<noteq> 304"

text \<open>
  \<open>POST\<close>. \<open>now\<close> is the clock at the rate-limit check and the cache read, \<open>later\<close> the
  clock when the upstream answer is stored; \<open>upstream\<close> is what the upstream call does if
  it is made.
\<close>

definition POST :: "int \<Rightarrow> int \<Rightarrow> Request \<Rightarrow> Upstream \<Rightarrow> Server \<Rightarrow> Server \<times> Response" where
  "POST now later request upstream s0 =
     (let (s, rateLimitResult) = routeCheckRateLimit now request s0 in
      if \<not> allowed rateLimitResult
      then (s, \<lparr>status = 429, body = RateLimited (retryAfter rateLimitResult),
                headers = [(js ''Retry-After'',
                              numberToString (case retryAfter rateLimitResult of None \<Rightarrow> 1 | Some n \<Rightarrow> n)),
                           (js ''X-RateLimit-Limit'', numberToString RATE_LIMIT_MAX),
                           (js ''X-RateLimit-Remaining'', js ''0''),
                           (js ''X-RateLimit-Reset'', numberToString (res_resetAt rateLimitResult))]\<rparr>)
      else case jsonBody request of
        None \<Rightarrow> (s, proxyError)
      | Some b \<Rightarrow>
         (case (getProperty b (js ''query''), getProperty b (js ''variables''),
                getProperty b (js ''publicId''), getProperty b (js ''secretKey'')) of
            (Inr query, Inr variables, Inr publicId, Inr secretKey) \<Rightarrow>
              if \<not> truthy query
              then (s, \<lparr>status = 400, body = ErrorMessage (js ''Query is required''), headers = []\<rparr>)
              else
                (let hasAuth = (truthy publicId \<and> truthy secretKey) in
                 case generateKey query variables of
                   Inl e \<Rightarrow> (s, proxyError)
                 | Inr cacheKey \<Rightarrow>
                     (let (s1, cached) =
                            (if \<not> shouldSkipCache hasAuth
                             then (let (c, hit) = get now cacheKey (serverCache s)
                                   in (s\<lparr>serverCache := c\<rparr>, hit))
                             else (s, None))
                      in case cached of
                           Some hit \<Rightarrow>
                             (s1, \<lparr>status = 200, body = Json (hit_data hit),
                                   headers = [(js ''X-Cache'', js ''HIT''),
                                              (js ''X-Cache-TTL'',
                                                 if \<not> hit_isStale hit then js ''fresh'' else js ''stale'')]
                                             @ rateLimitHeaders rateLimitResult\<rparr>)
                         | None \<Rightarrow>
                             (case upstream of
                                FetchThrows \<Rightarrow> (s1, proxyError)
                              | NotOk st statusText \<Rightarrow>
                                  if canCarryBody st
                                  then (s1, \<lparr>status = st,
                                             body = ErrorMessage (js ''API request failed: ''
                                                      @ numberToString st @ js '' '' @ statusText),
                                             headers = []\<rparr>)
                                  else (s1, proxyError)
                              | OkNotJson \<Rightarrow> (s1, proxyError)
                              | OkJson result \<Rightarrow>
                                  (case getProperty result (js ''errors'') of
                                     Inl e \<Rightarrow>
                                       if \<not> shouldSkipCache hasAuth then (s1, proxyError)
                                       else (s1, \<lparr>status = 200, body = Json result,
                                                  headers = (js ''X-Cache'', js ''MISS'')
                                                            # rateLimitHeaders rateLimitResult\<rparr>)
                                   | Inr errors \<Rightarrow>
                                       (let s2 =
                                          (if \<not> shouldSkipCache hasAuth \<and> \<not> truthy errors
                                           then (case query of
                                                   JStr q \<Rightarrow>
                                                     s1\<lparr>serverCache := set_entry later cacheKey result
                                                          (Some (CACHE_TTLS (detectQueryType q))) (serverCache s1)\<rparr>
                                                 | _ \<Rightarrow> s1)
                                           else s1)
                                        in (s2, \<lparr>status = 200, body = Json result,
                                                 headers = (js ''X-Cache'', js ''MISS'')
                                                           # rateLimitHeaders rateLimitResult\<rparr>))))))
          | _ \<Rightarrow> (s, proxyError)))"

text \<open>A request carries credentials when its body is an object whose \<open>publicId\<close> and
  \<open>secretKey\<close> are both truthy.\<close>

definition carriesCredentials :: "Request \<Rightarrow> bool" where
  "carriesCredentials request =
     (case jsonBody request of
        Some (JObj ps) \<Rightarrow>
          (case (map_of ps (js ''publicId''), map_of ps (js ''secretKey'')) of
             (Some publicId, Some secretKey) \<Rightarrow> truthy publicId \<and> truthy secretKey
           | _ \<Rightarrow> False)
      | _ \<Rightarrow> False)"

section \<open>Verified properties\<close>

section \<open>Response cache: expiry and the stale flag\<close>

lemma map_of_set_entry:
  "map_of (cache (set_entry t0 key d ttl c)) key =
     Some \<lparr>data = d,
           expires = t0 + (case ttl of None \<Rightarrow> defaultTTL (config c) | Some t \<Rightarrow> t),
           staleAt = t0 + (case ttl of None \<Rightarrow> defaultTTL (config c) | Some t \<Rightarrow> t)
                     - staleWindow (config c)\<rparr>"
  by (simp add: set_entry_def Let_def updateAccessOrder_def removeFromAccessOrder_def
      update_conv')

lemma config_set_entry: "config (set_entry t0 key d ttl c) = config c"
  by (simp add: set_entry_def Let_def updateAccessOrder_def removeFromAccessOrder_def
      evictOldest_def split: list.splits)

text \<open>
  C3, as the code has it. A key written with \<open>set(key, d, ttl)\<close> at \<open>t0\<close> and read at
  \<open>now\<close>: the read is \<open>null\<close> exactly when \<open>now > t0 + ttl + staleWindow\<close>, and then the key
  is purged from the map; otherwise the payload comes back and the stale flag is
  \<open>now > t0 + ttl - staleWindow\<close>: it flips at \<open>staleAt\<close>, one stale window before the
  expiry time \<open>t0 + ttl\<close>. A key that is not resident reads as \<open>null\<close>.
\<close>

theorem C3_get_after_set:
  "snd (get now key (set_entry t0 key d (Some ttl) c)) =
     (if now > t0 + ttl + staleWindow (config c) then None
      else Some \<lparr>hit_data = d, hit_isStale = (now > t0 + ttl - staleWindow (config c))\<rparr>)
   \<and> (now > t0 + ttl + staleWindow (config c) \<longrightarrow>
        map_of (cache (fst (get now key (set_entry t0 key d (Some ttl) c)))) key = None)
   \<and> (map_of (cache c) key = None \<longrightarrow> get now key c = (c, None))"
  by (simp add: get_def map_of_set_entry config_set_entry removeFromAccessOrder_def delete_conv')

theorem C3_get_after_set_witness:
  "snd (get 400000 (js ''k'')
         (set_entry 0 (js ''k'') (JNum 1) (Some 300000) (newServerCache DEFAULT_CONFIG))) = None
   \<and> map_of (cache (fst (get 400000 (js ''k'')
         (set_entry 0 (js ''k'') (JNum 1) (Some 300000) (newServerCache DEFAULT_CONFIG)))))
         (js ''k'') = None
   \<and> get 400000 (js ''k'') (newServerCache DEFAULT_CONFIG) = (newServerCache DEFAULT_CONFIG, None)"
  using C3_get_after_set [where now=400000 and ?t0.0=0 and ttl=300000
      and c="newServerCache DEFAULT_CONFIG" and key="js ''k''" and d="JNum 1"]
  by (simp add: newServerCache_def DEFAULT_CONFIG_def)

text \<open>
  The claim's stale flag \<open>now > t0 + ttl\<close> is not the code's: with the default
  configuration, an entry written at 0 with a TTL of 300000 ms and read at 250000 ms is
  already stale, 50 seconds before its expiry time.
\<close>

theorem C3_stale_flag_counterexample:
  "snd (get 250000 (js ''k'')
         (set_entry 0 (js ''k'') (JNum 1) (Some 300000) (newServerCache DEFAULT_CONFIG)))
     = Some \<lparr>hit_data = JNum 1, hit_isStale = True\<rparr>
   \<and> \<not> (250000 > (0::int) + 300000)"
  by (simp add: get_def set_entry_def newServerCache_def DEFAULT_CONFIG_def Let_def
     updateAccessOrder_def removeFromAccessOrder_def js_def)

section \<open>Response cache: capacity and eviction order\<close>

































section \<open>Revalidating cache: reads after a write\<close>

lemma swr_get_after_set:
  "swr_get t key (swr_set t0 key v err c) =
   (if t - t0 > cacheTime (options c)
    then ((swr_set t0 key v err c)\<lparr>entries := (entries c)(key := None)\<rparr>, absent)
    else (swr_set t0 key v err c,
          \<lparr>sw_data = v, sw_error = err, sw_isLoading = False,
           sw_isValidating = (case entries c key of None \<Rightarrow> False | Some e \<Rightarrow> en_isValidating e),
           sw_isStale = (t - t0 > staleTime (options c))\<rparr>))"
  by (simp add: swr_get_def swr_set_def)

text \<open>
  C7. A value written at \<open>t0\<close> with \<open>staleTime \<le> cacheTime\<close> and read at \<open>t\<close>: up to
  \<open>staleTime\<close> after the write the read returns it fresh, after that and up to \<open>cacheTime\<close>
  it returns it stale, and later the read returns no data and the entry is gone from the
  map.
\<close>

theorem C7_read_after_write:
  assumes "staleTime (options c) \<le> cacheTime (options c)"
  shows "(t - t0 \<le> staleTime (options c) \<longrightarrow>
            sw_data (snd (swr_get t key (swr_set t0 key v None c))) = v
          \<and> \<not> sw_isStale (snd (swr_get t key (swr_set t0 key v None c))))
       \<and> (staleTime (options c) < t - t0 \<and> t - t0 \<le> cacheTime (options c) \<longrightarrow>
            sw_data (snd (swr_get t key (swr_set t0 key v None c))) = v
          \<and> sw_isStale (snd (swr_get t key (swr_set t0 key v None c))))
       \<and> (t - t0 > cacheTime (options c) \<longrightarrow>
            snd (swr_get t key (swr_set t0 key v None c)) = absent
          \<and> entries (fst (swr_get t key (swr_set t0 key v None c))) key = None)"
  using assms by (simp add: swr_get_after_set)

text \<open>The scenario of the specification: 5 minutes, 30 minutes, reads at 4, 6 and 31 minutes.\<close>

theorem C7_read_after_write_witness:
  "staleTime (options (newSWRCache DEFAULT_OPTIONS)) \<le> cacheTime (options (newSWRCache DEFAULT_OPTIONS))
   \<and> sw_data (snd (swr_get (1000 + 4 * 60000) (js ''k'')
         (swr_set 1000 (js ''k'') (JNum 7) None (newSWRCache DEFAULT_OPTIONS)))) = JNum 7
   \<and> \<not> sw_isStale (snd (swr_get (1000 + 4 * 60000) (js ''k'')
         (swr_set 1000 (js ''k'') (JNum 7) None (newSWRCache DEFAULT_OPTIONS))))
   \<and> sw_data (snd (swr_get (1000 + 6 * 60000) (js ''k'')
         (swr_set 1000 (js ''k'') (JNum 7) None (newSWRCache DEFAULT_OPTIONS)))) = JNum 7
   \<and> sw_isStale (snd (swr_get (1000 + 6 * 60000) (js ''k'')
         (swr_set 1000 (js ''k'') (JNum 7) None (newSWRCache DEFAULT_OPTIONS))))
   \<and> snd (swr_get (1000 + 31 * 60000) (js ''k'')
         (swr_set 1000 (js ''k'') (JNum 7) None (newSWRCache DEFAULT_OPTIONS))) = absent
   \<and> entries (fst (swr_get (1000 + 31 * 60000) (js ''k'')
         (swr_set 1000 (js ''k'') (JNum 7) None (newSWRCache DEFAULT_OPTIONS)))) (js ''k'') = None"
proof -
  let ?c = "newSWRCache DEFAULT_OPTIONS"
  have h: "staleTime (options ?c) \<le> cacheTime (options ?c)"
    by (simp add: newSWRCache_def DEFAULT_OPTIONS_def)
  have o: "staleTime (options ?c) = 300000" "cacheTime (options ?c) = 1800000"
    by (simp_all add: newSWRCache_def DEFAULT_OPTIONS_def)
  show ?thesis
    using h
      C7_read_after_write [OF h, where t="1000 + 4 * 60000" and ?t0.0=1000 and key="js ''k''" and v="JNum 7"]
      C7_read_after_write [OF h, where t="1000 + 6 * 60000" and ?t0.0=1000 and key="js ''k''" and v="JNum 7"]
      C7_read_after_write [OF h, where t="1000 + 31 * 60000" and ?t0.0=1000 and key="js ''k''" and v="JNum 7"]
    by (simp add: o)
qed

section \<open>Revalidating cache: a failed refresh\<close>

lemma fetch_Started:
  assumes "fetch t1 key c = (c1, Started p)"
  shows "entries c1 = entries (setValidating key True (fst (swr_get t1 key c)))"
    and "options c1 = options c"
  using assms
  by (auto simp: fetch_def Let_def swr_get_def setValidating_def absent_def
      split: option.splits if_splits prod.splits)

text \<open>
  C2. A key has an entry; a \<open>fetch\<close> at \<open>t1\<close> calls the fetcher, which rejects with \<open>err\<close>
  (handlers run at \<open>tr\<close>). The request promise, which every caller of that invocation
  holds, rejects with \<open>err\<close>. A read at any later \<open>t2\<close> returns the same data as a read at
  \<open>t2\<close> would have returned before the fetch; and while the entry is within \<open>cacheTime\<close>
  of its write, that read returns the entry's data, the same stale flag, and the error.
\<close>

theorem C2_failed_refresh_keeps_data:
  assumes "entries c key = Some entry"
      and "fetch t1 key c = (c1, Started p)"
      and "t1 \<le> t2"
  shows "snd (settle tr key (Rejected err) c1) = Rejected err
       \<and> sw_data (snd (swr_get t2 key (fst (settle tr key (Rejected err) c1))))
           = sw_data (snd (swr_get t2 key c))
       \<and> (t2 - timestamp entry \<le> cacheTime (options c) \<longrightarrow>
            sw_data (snd (swr_get t2 key (fst (settle tr key (Rejected err) c1)))) = en_data entry
          \<and> sw_error (snd (swr_get t2 key (fst (settle tr key (Rejected err) c1)))) = Some err
          \<and> sw_isStale (snd (swr_get t2 key (fst (settle tr key (Rejected err) c1))))
              = sw_isStale (snd (swr_get t2 key c)))"
  using assms fetch_Started [OF assms(2)]
  by (auto simp: settle_def onRejected_def onFinally_def setValidating_def swr_get_def
        swr_set_def absent_def split: option.splits if_splits)

theorem C2_failed_refresh_keeps_data_witness:
  "sw_data (snd (swr_get 400200 (js ''k'')
       (fst (settle 400100 (js ''k'') (Rejected (js ''boom''))
              (fst (fetch 400000 (js ''k'')
                 (swr_set 0 (js ''k'') (JNum 7) None (newSWRCache DEFAULT_OPTIONS)))))))) = JNum 7
   \<and> sw_error (snd (swr_get 400200 (js ''k'')
       (fst (settle 400100 (js ''k'') (Rejected (js ''boom''))
              (fst (fetch 400000 (js ''k'')
                 (swr_set 0 (js ''k'') (JNum 7) None (newSWRCache DEFAULT_OPTIONS)))))))) = Some (js ''boom'')
   \<and> snd (settle 400100 (js ''k'') (Rejected (js ''boom''))
              (fst (fetch 400000 (js ''k'')
                 (swr_set 0 (js ''k'') (JNum 7) None (newSWRCache DEFAULT_OPTIONS)))))
        = Rejected (js ''boom'')"
proof -
  let ?k = "js ''k''"
  let ?c = "swr_set 0 ?k (JNum 7) None (newSWRCache DEFAULT_OPTIONS)"
  let ?e = "\<lparr>en_data = JNum 7, en_error = None, timestamp = 0, en_isValidating = False\<rparr>"
  have h1: "entries ?c ?k = Some ?e"
    by (simp add: swr_set_def newSWRCache_def)
  have h2: "fetch 400000 ?k ?c = (fst (fetch 400000 ?k ?c), Started 0)"
    by (simp add: fetch_def swr_get_def swr_set_def newSWRCache_def
      DEFAULT_OPTIONS_def Let_def setValidating_def)
  have h3: "(400000::int) \<le> 400200" by simp
  have o: "cacheTime (options ?c) = 1800000"
    by (simp add: swr_set_def newSWRCache_def DEFAULT_OPTIONS_def)
  have live: "400200 - timestamp ?e \<le> cacheTime (options ?c)"
    by (simp add: o)
  note r = C2_failed_refresh_keeps_data [OF h1 h2 h3, where tr=400100 and err="js ''boom''"]
  show ?thesis
    using r [THEN conjunct1] r [THEN conjunct2, THEN conjunct2, THEN mp, OF live]
    by simp
qed

section \<open>Revalidating cache: concurrent fetches\<close>

lemma fetchAll_Cons:
  "fst (fetchAll key (t # ts) c) = fst (fetchAll key ts (fst (fetch t key c)))"
  "snd (fetchAll key (t # ts) c) = snd (fetch t key c) # snd (fetchAll key ts (fst (fetch t key c)))"
  by (simp_all add: case_prod_unfold Let_def)

lemma fetch_first:
  assumes "inflightRequests c key = None" "\<not> freshHit t key c"
  shows "snd (fetch t key c) = Started (fetcherCalls c)"
    and "fetcherCalls (fst (fetch t key c)) = Suc (fetcherCalls c)"
    and "joining t key (fetcherCalls c) (fst (fetch t key c))"
  using assms
  by (auto simp: fetch_def freshHit_def joining_def swr_get_def setValidating_def absent_def Let_def
      split: option.splits if_splits)

lemma fetch_joining:
  assumes "joining t key p c" "t \<le> t'"
  shows "snd (fetch t' key c) = Joined p"
    and "fetcherCalls (fst (fetch t' key c)) = fetcherCalls c"
    and "joining t key p (fst (fetch t' key c))"
  using assms
  by (auto simp: fetch_def joining_def swr_get_def absent_def Let_def
      split: option.splits if_splits)

lemma fetchAll_joining:
  assumes "joining t key p c" "\<forall>t' \<in> set ts. t \<le> t'"
  shows "snd (fetchAll key ts c) = replicate (length ts) (Joined p)
       \<and> fetcherCalls (fst (fetchAll key ts c)) = fetcherCalls c
       \<and> joining t key p (fst (fetchAll key ts c))"
  using assms
proof (induction ts arbitrary: c)
  case Nil
  then show ?case by simp
next
  case (Cons a ts)
  have a: "t \<le> a" using Cons.prems(2) by simp
  note f = fetch_joining [OF Cons.prems(1) a]
  have "\<forall>t' \<in> set ts. t \<le> t'" using Cons.prems(2) by simp
  from Cons.IH [OF f(3) this] f(1,2) show ?case
    by (simp add: fetchAll_Cons del: fetchAll.simps)
qed

lemma fetch_count: "fetcherCalls (fst (fetch t key c)) \<le> Suc (fetcherCalls c)"
  by (auto simp: fetch_def swr_get_def setValidating_def absent_def Let_def
      split: option.splits if_splits)

lemma fetch_inflight_keeps:
  "inflightRequests c key = Some p \<Longrightarrow>
     inflightRequests (fst (fetch t key c)) key = Some p
   \<and> fetcherCalls (fst (fetch t key c)) = fetcherCalls c"
  by (auto simp: fetch_def swr_get_def setValidating_def absent_def Let_def
      split: option.splits if_splits)

lemma fetch_inflight_after:
  "fetcherCalls (fst (fetch t key c)) \<noteq> fetcherCalls c \<Longrightarrow>
     inflightRequests (fst (fetch t key c)) key \<noteq> None"
  by (auto simp: fetch_def swr_get_def setValidating_def absent_def Let_def
      split: option.splits if_splits)

lemma fetchAll_inflight_keeps:
  "inflightRequests c key = Some p \<Longrightarrow>
     fetcherCalls (fst (fetchAll key ts c)) = fetcherCalls c"
proof (induction ts arbitrary: c)
  case Nil
  then show ?case by simp
next
  case (Cons a ts)
  from fetch_inflight_keeps [OF Cons.prems, of a] Cons.IH [of "fst (fetch a key c)"]
  show ?case by (simp add: fetchAll_Cons del: fetchAll.simps)
qed

lemma fetchAll_at_most_once:
  "fetcherCalls (fst (fetchAll key ts c)) \<le> Suc (fetcherCalls c)"
proof (induction ts arbitrary: c)
  case Nil
  then show ?case by simp
next
  case (Cons a ts)
  show ?case
  proof (cases "fetcherCalls (fst (fetch a key c)) = fetcherCalls c")
    case True
    with Cons.IH [of "fst (fetch a key c)"] show ?thesis by (simp add: fetchAll_Cons del: fetchAll.simps)
  next
    case False
    then obtain p where "inflightRequests (fst (fetch a key c)) key = Some p"
      using fetch_inflight_after by blast
    from fetchAll_inflight_keeps [OF this, of ts] fetch_count [of a key c]
    show ?thesis by (simp add: fetchAll_Cons del: fetchAll.simps)
  qed
qed


lemma fetch_serving:
  assumes "serving key p d c"
  shows "snd (fetch t' key c) = Joined p \<or> snd (fetch t' key c) = FromCache d"
    and "fetcherCalls (fst (fetch t' key c)) = fetcherCalls c"
    and "serving key p d (fst (fetch t' key c))"
  using assms
  by (auto simp: fetch_def serving_def swr_get_def absent_def Let_def
      split: option.splits if_splits)

lemma fetchAll_serving:
  assumes "serving key p d c"
  shows "set (snd (fetchAll key ts c)) \<subseteq> {Joined p, FromCache d}
       \<and> fetcherCalls (fst (fetchAll key ts c)) = fetcherCalls c"
  using assms
proof (induction ts arbitrary: c)
  case Nil
  then show ?case by simp
next
  case (Cons a ts)
  note f = fetch_serving [OF Cons.prems, of a]
  from Cons.IH [OF f(3)] f(1,2) show ?case
    by (auto simp add: fetchAll_Cons simp del: fetchAll.simps)
qed

lemma onFulfilled_serving:
  "inflightRequests c key = Some p \<Longrightarrow> serving key p d (fst (onFulfilled tr key d c))"
  by (simp add: onFulfilled_def serving_def swr_set_def)

lemma onFulfilled_calls: "fetcherCalls (fst (onFulfilled tr key d c)) = fetcherCalls c"
  by (simp add: onFulfilled_def swr_set_def)

lemma onRejected_joining:
  "joining t key p c \<Longrightarrow> joining t key p (fst (onRejected tr key err c))"
  by (auto simp: onRejected_def joining_def swr_set_def split: option.splits)

lemma onRejected_calls: "fetcherCalls (fst (onRejected tr key err c)) = fetcherCalls c"
  by (simp add: onRejected_def swr_set_def split: option.splits)

lemma onFinally_clears:
  "inflightRequests (onFinally key c) key = None \<and> fetcherCalls (onFinally key c) = fetcherCalls c"
  by (simp add: onFinally_def setValidating_def split: option.splits)

lemma dedup_started:
  assumes "inflightRequests c key = None"
      and "\<not> freshHit t key c"
      and "\<forall>t' \<in> set (ts @ ts2). t \<le> t'"
  shows "fetcherCalls (fst (fetchAll key (t # ts) c)) = Suc (fetcherCalls c)
       \<and> snd (fetchAll key (t # ts) c)
           = Started (fetcherCalls c) # replicate (length ts) (Joined (fetcherCalls c))
       \<and> (\<forall>r \<in> set (snd (fetchAll key (t # ts) c)).
             outcomeOf settled r = settled (fetcherCalls c))
       \<and> inflightRequests (fst (fetchAll key (t # ts) c)) key = Some (fetcherCalls c)
       \<and> fetcherCalls (fst (fetchAll key ts2 (fst (onFulfilled tr key d (fst (fetchAll key (t # ts) c))))))
           = Suc (fetcherCalls c)
       \<and> set (snd (fetchAll key ts2 (fst (onFulfilled tr key d (fst (fetchAll key (t # ts) c))))))
           \<subseteq> {Joined (fetcherCalls c), FromCache d}
       \<and> fetcherCalls (fst (fetchAll key ts2 (fst (onRejected tr key err (fst (fetchAll key (t # ts) c))))))
           = Suc (fetcherCalls c)
       \<and> snd (fetchAll key ts2 (fst (onRejected tr key err (fst (fetchAll key (t # ts) c)))))
           = replicate (length ts2) (Joined (fetcherCalls c))"
proof -
  let ?p = "fetcherCalls c"
  let ?c1 = "fst (fetchAll key (t # ts) c)"
  note f = fetch_first [OF assms(1,2)]
  have ts: "\<forall>t' \<in> set ts. t \<le> t'" and ts2: "\<forall>t' \<in> set ts2. t \<le> t'"
    using assms(3) by auto
  note j = fetchAll_joining [OF f(3) ts]
  have calls: "fetcherCalls ?c1 = Suc ?p"
    using j f(2) by (simp add: fetchAll_Cons del: fetchAll.simps)
  have rets: "snd (fetchAll key (t # ts) c) = Started ?p # replicate (length ts) (Joined ?p)"
    using j f(1) by (simp add: fetchAll_Cons del: fetchAll.simps)
  have jn: "joining t key ?p ?c1"
    using j by (simp add: fetchAll_Cons del: fetchAll.simps)
  then have infl: "inflightRequests ?c1 key = Some ?p"
    by (simp add: joining_def)
  have outs: "\<forall>r \<in> set (snd (fetchAll key (t # ts) c)). outcomeOf settled r = settled ?p"
    unfolding rets by auto
  note s = fetchAll_serving [OF onFulfilled_serving [OF infl, where d=d and tr=tr], where ts=ts2]
  note r = fetchAll_joining [OF onRejected_joining [OF jn, where tr=tr and err=err] ts2]
  show ?thesis
    using calls rets outs infl s r
    by (simp add: onFulfilled_calls onRejected_calls del: fetchAll.simps)
qed

lemma fetch_fresh:
  assumes "inflightRequests c key = None" and "freshHit t key c"
  shows "fetch t key c = (c, FromCache (sw_data (snd (swr_get t key c))))"
  using assms
  by (auto simp: fetch_def freshHit_def swr_get_def absent_def Let_def
      split: option.splits if_splits)

text \<open>
  C1, as the code has it. The key has no request in flight. If the first of the concurrent
  calls, at \<open>t\<close>, finds no fresh truthy cached value, then over that call and the calls
  at the later times \<open>ts\<close> the fetcher is called exactly once, the first call returns the
  new promise and every other call returns that same promise, so all of them settle with
  its outcome, and it is the one request in flight for the key; calls that arrive between
  the \<open>then\<close> or \<open>catch\<close> handler and \<open>finally\<close> (at the times \<open>ts2\<close>) still do not call
  the fetcher: after \<open>then\<close> they return the promise or the value \<open>d\<close> it resolves with,
  after \<open>catch\<close> they return the promise. If the first call finds a fresh truthy cached
  value, it returns that value, leaves the store as it is and does not call the fetcher.
  From any state at all, calls with no handler in between call the fetcher at most once.
\<close>

theorem C1_concurrent_fetch_dedup:
  assumes "inflightRequests c key = None"
  shows "(\<not> freshHit t key c \<and> (\<forall>t' \<in> set (ts @ ts2). t \<le> t') \<longrightarrow>
            fetcherCalls (fst (fetchAll key (t # ts) c)) = Suc (fetcherCalls c)
          \<and> snd (fetchAll key (t # ts) c)
              = Started (fetcherCalls c) # replicate (length ts) (Joined (fetcherCalls c))
          \<and> (\<forall>r \<in> set (snd (fetchAll key (t # ts) c)).
                outcomeOf settled r = settled (fetcherCalls c))
          \<and> inflightRequests (fst (fetchAll key (t # ts) c)) key = Some (fetcherCalls c)
          \<and> fetcherCalls (fst (fetchAll key ts2 (fst (onFulfilled tr key d (fst (fetchAll key (t # ts) c))))))
              = Suc (fetcherCalls c)
          \<and> set (snd (fetchAll key ts2 (fst (onFulfilled tr key d (fst (fetchAll key (t # ts) c))))))
              \<subseteq> {Joined (fetcherCalls c), FromCache d}
          \<and> fetcherCalls (fst (fetchAll key ts2 (fst (onRejected tr key err (fst (fetchAll key (t # ts) c))))))
              = Suc (fetcherCalls c)
          \<and> snd (fetchAll key ts2 (fst (onRejected tr key err (fst (fetchAll key (t # ts) c)))))
              = replicate (length ts2) (Joined (fetcherCalls c)))
       \<and> (freshHit t key c \<longrightarrow>
            fetch t key c = (c, FromCache (sw_data (snd (swr_get t key c)))))
       \<and> fetcherCalls (fst (fetchAll key ts3 c3)) \<le> Suc (fetcherCalls c3)"
  using dedup_started [OF assms, of t ts ts2 settled tr d err] fetch_fresh [OF assms, of t]
    fetchAll_at_most_once [of key ts3 c3]
  by blast

theorem C1_concurrent_fetch_dedup_witness:
  "fetcherCalls (fst (fetchAll (js ''k'') [1000, 1000, 1001, 1500] (newSWRCache DEFAULT_OPTIONS))) = 1
   \<and> snd (fetchAll (js ''k'') [1000, 1000, 1001, 1500] (newSWRCache DEFAULT_OPTIONS))
       = [Started 0, Joined 0, Joined 0, Joined 0]
   \<and> fetcherCalls (fst (fetchAll (js ''k'') [1600]
         (fst (onRejected 1550 (js ''k'') (js ''boom'')
            (fst (fetchAll (js ''k'') [1000, 1000, 1001, 1500] (newSWRCache DEFAULT_OPTIONS))))))) = 1
   \<and> snd (fetchAll (js ''k'') [1600]
         (fst (onRejected 1550 (js ''k'') (js ''boom'')
            (fst (fetchAll (js ''k'') [1000, 1000, 1001, 1500] (newSWRCache DEFAULT_OPTIONS))))))
       = [Joined 0]
   \<and> inflightRequests (swr_set 0 (js ''k'') (JNum 7) None (newSWRCache DEFAULT_OPTIONS)) (js ''k'') = None
   \<and> freshHit 1000 (js ''k'') (swr_set 0 (js ''k'') (JNum 7) None (newSWRCache DEFAULT_OPTIONS))
   \<and> fetch 1000 (js ''k'') (swr_set 0 (js ''k'') (JNum 7) None (newSWRCache DEFAULT_OPTIONS))
       = (swr_set 0 (js ''k'') (JNum 7) None (newSWRCache DEFAULT_OPTIONS), FromCache (JNum 7))"
proof -
  let ?c = "newSWRCache DEFAULT_OPTIONS"
  let ?f = "swr_set 0 (js ''k'') (JNum 7) None (newSWRCache DEFAULT_OPTIONS)"
  have h1: "inflightRequests ?c (js ''k'') = None"
    by (simp add: newSWRCache_def)
  have h2: "\<not> freshHit 1000 (js ''k'') ?c"
    by (simp add: freshHit_def swr_get_def newSWRCache_def absent_def)
  have h3: "\<forall>t' \<in> set ([1000, 1001, 1500] @ [1600]). (1000::int) \<le> t'"
    by simp
  have c0: "fetcherCalls ?c = 0"
    by (simp add: newSWRCache_def)
  have g1: "inflightRequests ?f (js ''k'') = None"
    by (simp add: swr_set_def newSWRCache_def)
  have g2: "freshHit 1000 (js ''k'') ?f"
    by (simp add: freshHit_def swr_get_def swr_set_def newSWRCache_def DEFAULT_OPTIONS_def)
  have g3: "sw_data (snd (swr_get 1000 (js ''k'') ?f)) = JNum 7"
    by (simp add: swr_get_def swr_set_def newSWRCache_def DEFAULT_OPTIONS_def)
  note a = C1_concurrent_fetch_dedup [OF h1, where t=1000 and ts="[1000, 1001, 1500]"
      and ?ts2.0="[1600]" and tr=1550 and err="js ''boom''", THEN conjunct1, THEN mp, OF conjI [OF h2 h3]]
  note b = C1_concurrent_fetch_dedup [OF g1, where t=1000, THEN conjunct2, THEN conjunct1, THEN mp, OF g2]
  from a have a': "fetcherCalls (fst (fetchAll (js ''k'') [1000, 1000, 1001, 1500] ?c)) = 1
     \<and> snd (fetchAll (js ''k'') [1000, 1000, 1001, 1500] ?c) = [Started 0, Joined 0, Joined 0, Joined 0]
     \<and> fetcherCalls (fst (fetchAll (js ''k'') [1600]
         (fst (onRejected 1550 (js ''k'') (js ''boom'')
            (fst (fetchAll (js ''k'') [1000, 1000, 1001, 1500] ?c)))))) = 1
     \<and> snd (fetchAll (js ''k'') [1600]
         (fst (onRejected 1550 (js ''k'') (js ''boom'')
            (fst (fetchAll (js ''k'') [1000, 1000, 1001, 1500] ?c))))) = [Joined 0]"
    by (simp add: c0 del: fetchAll.simps)
  from b g3 have b': "fetch 1000 (js ''k'') ?f = (?f, FromCache (JNum 7))" by simp
  from a' b' g1 g2 show ?thesis by blast
qed

text \<open>
  The claim's "exactly once" fails where the first call finds a fresh value: two calls at
  time 1000 on an entry written at 0 both return the cached value, the fetcher is not
  called, and nothing is in flight.
\<close>

theorem C1_fresh_entry_counterexample:
  "fetcherCalls (swr_set 0 (js ''k'') (JNum 7) None (newSWRCache DEFAULT_OPTIONS)) = 0
   \<and> fetchAll (js ''k'') [1000, 1000] (swr_set 0 (js ''k'') (JNum 7) None (newSWRCache DEFAULT_OPTIONS))
       = (swr_set 0 (js ''k'') (JNum 7) None (newSWRCache DEFAULT_OPTIONS),
          [FromCache (JNum 7), FromCache (JNum 7)])"
  by (simp add: fetch_def swr_get_def swr_set_def newSWRCache_def DEFAULT_OPTIONS_def Let_def)

section \<open>Rate limiter\<close>

lemma exampleEnv_limit: "parseIntOr (RATE_LIMIT_REQUESTS exampleEnv) 100 = 100"
  by (simp add: exampleEnv_def parseIntOr_def parseInt_def isWhiteSpace_def digitValue_def
      Let_def js_def)

lemma exampleEnv_window: "parseIntOr (RATE_LIMIT_WINDOW_SECONDS exampleEnv) 60 = 60"
  by (simp add: exampleEnv_def parseIntOr_def parseInt_def isWhiteSpace_def digitValue_def
      Let_def js_def)

lemma rateKey_example: "rateKey (js ''1.2.3.4'') 120 = js ''rate:1.2.3.4:120''"
  by (simp add: rateKey_def numberToString_def digitsOf.simps js_def)

lemma checkRateLimit_kv_remaining:
  assumes "RATE_LIMIT w = Some kv" and "allowed (snd (checkRateLimit ip env now False w))"
  shows "\<exists>kv' stored.
           RATE_LIMIT (fst (checkRateLimit ip env now False w)) = Some kv'
         \<and> kv' (rateKey ip (windowStartOf env now)) = Some stored
         \<and> remaining (snd (checkRateLimit ip env now False w))
             = parseIntOr (RATE_LIMIT_REQUESTS env) 100 - count stored"
  using assms
  by (auto simp: checkRateLimit_def Let_def cleanupInMemoryRateLimit_def windowStartOf_def
      split: if_splits)

text \<open>
  C4 at a failing input. Limit 100, window 60 s, no KV binding, caller \<open>1.2.3.4\<close>, two calls
  at second 125: the second call is allowed and stores the counter 2 for the window
  starting at 120, yet returns \<open>remaining = 99\<close>, not \<open>100 - 2\<close>. With a KV namespace bound,
  the same two calls return 99 and then 98.
\<close>

theorem C4_in_memory_remaining_stuck:
  "remaining (snd (checkRateLimit (js ''1.2.3.4'') exampleEnv 125 False
       (fst (checkRateLimit (js ''1.2.3.4'') exampleEnv 125 False (newWorker None))))) = 99
   \<and> allowed (snd (checkRateLimit (js ''1.2.3.4'') exampleEnv 125 False
       (fst (checkRateLimit (js ''1.2.3.4'') exampleEnv 125 False (newWorker None)))))
   \<and> map_of (inMemoryRateLimit (fst (checkRateLimit (js ''1.2.3.4'') exampleEnv 125 False
       (fst (checkRateLimit (js ''1.2.3.4'') exampleEnv 125 False (newWorker None))))))
       (rateKey (js ''1.2.3.4'') 120) = Some \<lparr>count = 2, resetAt = 180\<rparr>
   \<and> remaining (snd (checkRateLimit (js ''1.2.3.4'') exampleEnv 125 False
       (fst (checkRateLimit (js ''1.2.3.4'') exampleEnv 125 False (newWorker (Some Map.empty)))))) = 98"
  by (simp add: checkRateLimit_def exampleEnv_limit exampleEnv_window Let_def newWorker_def
      cleanupInMemoryRateLimit_def dropExpired_def ensureInMemoryLimitCapacity_def
      MAX_IN_MEMORY_RATE_LIMIT_ENTRIES_def signed_modulo_int_def update_conv')

lemma evictLoop_small:
  "length m < MAX_IN_MEMORY_RATE_LIMIT_ENTRIES \<Longrightarrow> evictLoop m = m"
  by (subst evictLoop.simps) simp

lemma evictLoop_stuck:
  "evictLoop (([], e) # rest) = ([], e) # rest"
  by (subst evictLoop.simps) simp

lemma evictLoop_step:
  "length ((k, e) # rest) \<ge> MAX_IN_MEMORY_RATE_LIMIT_ENTRIES \<Longrightarrow> k \<noteq> [] \<Longrightarrow>
     evictLoop ((k, e) # rest) = evictLoop (AList.delete k ((k, e) # rest))"
  by (subst evictLoop.simps) simp

lemma evictLoop_keys: "fst ` set (evictLoop m) \<subseteq> fst ` set m"
proof (induction m rule: evictLoop.induct)
  case (1 m)
  show ?case
  proof (cases "length m \<ge> MAX_IN_MEMORY_RATE_LIMIT_ENTRIES")
    case False
    then show ?thesis by (simp add: evictLoop_small)
  next
    case True
    then have "m \<noteq> []" by (auto simp: MAX_IN_MEMORY_RATE_LIMIT_ENTRIES_def)
    then obtain k e rest where m: "m = (k, e) # rest" by (cases m) auto
    show ?thesis
    proof (cases "k = []")
      case True
      with m show ?thesis by (simp add: evictLoop_stuck)
    next
      case False
      from "1.IH" [OF True m refl False]
      have "fst ` set (evictLoop (AList.delete k m)) \<subseteq> fst ` set (AList.delete k m)" .
      also have "\<dots> \<subseteq> fst ` set m" by (rule dom_delete_subset)
      finally show ?thesis using evictLoop_step [of k e rest] True False m by simp
    qed
  qed
qed

lemma evictLoop_under:
  "[] \<notin> fst ` set m \<Longrightarrow> length (evictLoop m) < MAX_IN_MEMORY_RATE_LIMIT_ENTRIES"
proof (induction m rule: evictLoop.induct)
  case (1 m)
  show ?case
  proof (cases "length m \<ge> MAX_IN_MEMORY_RATE_LIMIT_ENTRIES")
    case False
    then show ?thesis by (simp add: evictLoop_small)
  next
    case True
    then have "m \<noteq> []" by (auto simp: MAX_IN_MEMORY_RATE_LIMIT_ENTRIES_def)
    then obtain k e rest where m: "m = (k, e) # rest" by (cases m) auto
    with "1.prems" have k: "k \<noteq> []" by auto
    have "[] \<notin> fst ` set (AList.delete k m)"
      using "1.prems" dom_delete_subset [of k m] by blast
    from "1.IH" [OF True m refl k this] evictLoop_step [of k e rest] True m k show ?thesis
      by simp
  qed
qed

lemma dropExpired_keys: "fst ` set (dropExpired now m) \<subseteq> fst ` set m"
  by (auto simp: dropExpired_def)

lemma dropExpired_length: "length (dropExpired now m) \<le> length m"
  by (simp add: dropExpired_def)

lemma distinct_dropExpired: "distinct (map fst m) \<Longrightarrow> distinct (map fst (dropExpired now m))"
  by (simp add: dropExpired_def distinct_map_filter)

lemma delete_first:
  "distinct (map fst ((k, e) # rest)) \<Longrightarrow> AList.delete k ((k, e) # rest) = rest"
  by (force simp: AList.delete_eq filter_id_conv)

text \<open>On a map of distinct, non-empty keys the eviction loop drops the first entries
  and keeps the last \<open>MAX_IN_MEMORY_RATE_LIMIT_ENTRIES - 1\<close>.\<close>

lemma evictLoop_drop:
  "distinct (map fst m) \<Longrightarrow> [] \<notin> fst ` set m \<Longrightarrow>
     evictLoop m = drop (length m - (MAX_IN_MEMORY_RATE_LIMIT_ENTRIES - 1)) m"
proof (induction m rule: evictLoop.induct)
  case (1 m)
  show ?case
  proof (cases "length m \<ge> MAX_IN_MEMORY_RATE_LIMIT_ENTRIES")
    case False
    then show ?thesis by (simp add: evictLoop_small)
  next
    case True
    then have "m \<noteq> []" by (auto simp: MAX_IN_MEMORY_RATE_LIMIT_ENTRIES_def)
    then obtain k e rest where m: "m = (k, e) # rest" by (cases m) auto
    with "1.prems" have k: "k \<noteq> []" by auto
    have del: "AList.delete k m = rest" using "1.prems"(1) unfolding m by (rule delete_first)
    have d: "distinct (map fst (AList.delete k m))" and n: "[] \<notin> fst ` set (AList.delete k m)"
      using "1.prems" m unfolding del by auto
    from "1.IH" [OF True m refl k d n]
    have "evictLoop rest = drop (length rest - (MAX_IN_MEMORY_RATE_LIMIT_ENTRIES - 1)) rest"
      unfolding del .
    moreover have "evictLoop m = evictLoop rest"
      using evictLoop_step [of k e rest] True k m del by simp
    moreover have "length m - (MAX_IN_MEMORY_RATE_LIMIT_ENTRIES - 1)
                     = Suc (length rest - (MAX_IN_MEMORY_RATE_LIMIT_ENTRIES - 1))"
      using True m by (simp add: MAX_IN_MEMORY_RATE_LIMIT_ENTRIES_def)
    ultimately show ?thesis using m by simp
  qed
qed

lemma distinct_evictLoop:
  assumes "distinct (map fst m)" and "[] \<notin> fst ` set m"
  shows "distinct (map fst (evictLoop m))"
  unfolding evictLoop_drop [OF assms] drop_map [symmetric] using assms(1) by (rule distinct_drop)

lemma ensure_under:
  assumes "[] \<notin> fst ` set (inMemoryRateLimit w)"
  shows "length (inMemoryRateLimit (ensureInMemoryLimitCapacity now w)) < MAX_IN_MEMORY_RATE_LIMIT_ENTRIES"
    and "[] \<notin> fst ` set (inMemoryRateLimit (ensureInMemoryLimitCapacity now w))"
proof -
  have d: "[] \<notin> fst ` set (dropExpired now (inMemoryRateLimit w))"
    using assms dropExpired_keys by blast
  show "length (inMemoryRateLimit (ensureInMemoryLimitCapacity now w)) < MAX_IN_MEMORY_RATE_LIMIT_ENTRIES"
    using evictLoop_under [OF d] by (simp add: ensureInMemoryLimitCapacity_def)
  show "[] \<notin> fst ` set (inMemoryRateLimit (ensureInMemoryLimitCapacity now w))"
    using d evictLoop_keys [of "dropExpired now (inMemoryRateLimit w)"] assms
    by (auto simp: ensureInMemoryLimitCapacity_def)
qed

lemma ensure_distinct:
  assumes "distinct (map fst (inMemoryRateLimit w))" and "[] \<notin> fst ` set (inMemoryRateLimit w)"
  shows "distinct (map fst (inMemoryRateLimit (ensureInMemoryLimitCapacity now w)))"
proof -
  have d: "[] \<notin> fst ` set (dropExpired now (inMemoryRateLimit w))"
    using assms(2) dropExpired_keys by blast
  from distinct_evictLoop [OF distinct_dropExpired [OF assms(1)] d] assms(1) show ?thesis
    by (simp add: ensureInMemoryLimitCapacity_def)
qed

lemma length_update_le: "length (AList.update k v m) \<le> Suc (length m)"
  by (induction m) auto

lemma rateKey_nonempty: "rateKey ip ws \<noteq> []"
  by (simp add: rateKey_def js_def)

lemma cleanup_storeOk: "storeOk w \<Longrightarrow> storeOk (cleanupInMemoryRateLimit now w)"
  using dropExpired_keys [of now "inMemoryRateLimit w"] dropExpired_length [of now "inMemoryRateLimit w"]
    distinct_dropExpired [of "inMemoryRateLimit w" now]
  by (auto simp: storeOk_def cleanupInMemoryRateLimit_def)

lemma delete_storeOk:
  "storeOk w \<Longrightarrow> storeOk (w\<lparr>inMemoryRateLimit := AList.delete k (inMemoryRateLimit w)\<rparr>)"
  using dom_delete_subset [of k "inMemoryRateLimit w"] length_delete_le [of k "inMemoryRateLimit w"]
  by (auto simp: storeOk_def distinct_delete)

lemma insert_storeOk:
  assumes "storeOk w"
  shows "storeOk ((ensureInMemoryLimitCapacity now w)\<lparr>inMemoryRateLimit :=
           AList.update (rateKey ip ws) v (inMemoryRateLimit (ensureInMemoryLimitCapacity now w))\<rparr>)"
proof -
  from assms have n: "[] \<notin> fst ` set (inMemoryRateLimit w)"
    and d: "distinct (map fst (inMemoryRateLimit w))" by (simp_all add: storeOk_def)
  note e = ensure_under [OF n, of now]
  show ?thesis
    using e ensure_distinct [OF d n, of now]
      length_update_le [of "rateKey ip ws" v "inMemoryRateLimit (ensureInMemoryLimitCapacity now w)"]
      rateKey_nonempty [of ip ws]
    by (auto simp: storeOk_def dom_update distinct_update)
qed

lemma checkRateLimit_storeOk:
  assumes "storeOk w"
  shows "storeOk (fst (checkRateLimit ip env now kvt w))"
proof -
  let ?w = "cleanupInMemoryRateLimit now w"
  have c: "storeOk ?w" using assms by (rule cleanup_storeOk)
  have kvput: "\<And>kv. storeOk (?w\<lparr>RATE_LIMIT := kv\<rparr>)"
    using c by (simp add: storeOk_def)
  show ?thesis
    unfolding checkRateLimit_def Let_def
    using c kvput delete_storeOk [OF c] insert_storeOk [OF c] insert_storeOk [OF delete_storeOk [OF c]]
    by (auto split: option.splits)
qed

lemma runCalls_Cons:
  "fst (runCalls env (c # cs) w) =
     fst (runCalls env cs (fst (checkRateLimit (clientIP c) env (at c) (kvThrows c) w)))"
  "snd (runCalls env (c # cs) w) =
     snd (checkRateLimit (clientIP c) env (at c) (kvThrows c) w)
       # snd (runCalls env cs (fst (checkRateLimit (clientIP c) env (at c) (kvThrows c) w)))"
  by (simp_all add: case_prod_unfold Let_def)

lemma runCalls_storeOk: "storeOk w \<Longrightarrow> storeOk (fst (runCalls env cs w))"
proof (induction cs arbitrary: w)
  case Nil
  then show ?case by simp
next
  case (Cons c cs)
  from Cons.IH [OF checkRateLimit_storeOk [OF Cons.prems]] show ?case
    by (simp add: runCalls_Cons del: runCalls.simps)
qed

section \<open>Rate limiter: the fixed window\<close>

lemma digitsOf_small: "n < 10 \<Longrightarrow> digitsOf n = [48 + n]"
  by (subst digitsOf.simps) simp

lemma digitsOf_big: "\<not> n < 10 \<Longrightarrow> digitsOf n = digitsOf (n div 10) @ [48 + n mod 10]"
  by (subst digitsOf.simps) simp

lemma digitsOf_nonempty: "digitsOf n \<noteq> []"
proof (cases "n < 10")
  case True
  show ?thesis unfolding digitsOf_small [OF True] by simp
next
  case False
  show ?thesis unfolding digitsOf_big [OF False] by simp
qed

lemma digitsOf_range: "u \<in> set (digitsOf n) \<Longrightarrow> 48 \<le> u \<and> u \<le> 57"
proof (induction n arbitrary: u rule: digitsOf.induct)
  case (1 n)
  show ?case
  proof (cases "n < 10")
    case True
    from "1.prems" have "u = 48 + n" unfolding digitsOf_small [OF True] by simp
    with True show ?thesis by simp
  next
    case False
    from "1.prems" have "u \<in> set (digitsOf (n div 10)) \<or> u = 48 + n mod 10"
      unfolding digitsOf_big [OF False] by auto
    with "1.IH" [OF False] show ?thesis by auto
  qed
qed

lemma digitsOf_inj: "digitsOf m = digitsOf n \<Longrightarrow> m = n"
proof (induction m arbitrary: n rule: digitsOf.induct)
  case (1 m)
  show ?case
  proof (cases "m < 10")
    case True
    note dm = digitsOf_small [OF True]
    show ?thesis
    proof (cases "n < 10")
      case True
      from "1.prems" show ?thesis unfolding dm digitsOf_small [OF True] by simp
    next
      case False
      from "1.prems" digitsOf_nonempty [of "n div 10"] show ?thesis
        unfolding dm digitsOf_big [OF False] by simp
    qed
  next
    case False
    note dm = digitsOf_big [OF False]
    show ?thesis
    proof (cases "n < 10")
      case True
      from "1.prems" digitsOf_nonempty [of "m div 10"] show ?thesis
        unfolding dm digitsOf_small [OF True] by simp
    next
      case nf: False
      from "1.prems" have "digitsOf (m div 10) = digitsOf (n div 10)" "m mod 10 = n mod 10"
        unfolding dm digitsOf_big [OF nf] by simp_all
      with "1.IH" [OF False, of "n div 10"] have "m div 10 = n div 10" "m mod 10 = n mod 10" by auto
      then show ?thesis by (metis div_mult_mod_eq)
    qed
  qed
qed

lemma digitsOf_hd: "hd (digitsOf n) \<noteq> 45"
  using digitsOf_range [of "hd (digitsOf n)" n] digitsOf_nonempty [of n] by auto

lemma numberToString_inj: "numberToString i = numberToString j \<Longrightarrow> i = j"
proof -
  assume a: "numberToString i = numberToString j"
  consider "i < 0" "j < 0" | "i < 0" "\<not> j < 0" | "\<not> i < 0" "j < 0" | "\<not> i < 0" "\<not> j < 0" by blast
  then show ?thesis
  proof cases
    case 1
    with a have "nat (- i) = nat (- j)" by (simp add: numberToString_def digitsOf_inj)
    with 1 show ?thesis by simp
  next
    case 2
    with a have "45 # digitsOf (nat (- i)) = digitsOf (nat j)" by (simp add: numberToString_def)
    then have "hd (digitsOf (nat j)) = 45" by (metis list.sel(1))
    with digitsOf_hd show ?thesis by blast
  next
    case 3
    with a have "45 # digitsOf (nat (- j)) = digitsOf (nat i)" by (simp add: numberToString_def)
    then have "hd (digitsOf (nat i)) = 45" by (metis list.sel(1))
    with digitsOf_hd show ?thesis by blast
  next
    case 4
    with a have "nat i = nat j" by (simp add: numberToString_def digitsOf_inj)
    with 4 show ?thesis by simp
  qed
qed

lemma numberToString_no_colon: "58 \<notin> set (numberToString i)"
  using digitsOf_range [of 58] by (auto simp: numberToString_def)

lemma split_at_first:
  "a @ c # x = b @ c # y \<Longrightarrow> c \<notin> set a \<Longrightarrow> c \<notin> set b \<Longrightarrow> a = b \<and> x = y"
proof (induction a arbitrary: b)
  case Nil
  then show ?case by (cases b) auto
next
  case (Cons u a)
  then show ?case by (cases b) auto
qed

lemma split_at_last:
  assumes "xs @ c # s = ys @ c # t" "c \<notin> set s" "c \<notin> set t"
  shows "xs = ys \<and> s = t"
proof -
  from assms(1) have "rev (xs @ c # s) = rev (ys @ c # t)" by simp
  then have "rev s @ c # rev xs = rev t @ c # rev ys" by simp
  from split_at_first [OF this] assms(2,3) show ?thesis by simp
qed

lemma rateKey_inj:
  assumes "rateKey ip ws = rateKey ip' ws'"
  shows "ip = ip' \<and> ws = ws'"
proof -
  from assms have "js ''rate:'' @ (ip @ 58 # numberToString ws) = js ''rate:'' @ (ip' @ 58 # numberToString ws')"
    by (simp add: rateKey_def js_def)
  then have "ip @ 58 # numberToString ws = ip' @ 58 # numberToString ws'"
    by (simp only: same_append_eq)
  from split_at_last [OF this numberToString_no_colon numberToString_no_colon]
  have "ip = ip'" "numberToString ws = numberToString ws'" by simp_all
  then show ?thesis using numberToString_inj by blast
qed







lemma ensure_below:
  "length (inMemoryRateLimit w) < MAX_IN_MEMORY_RATE_LIMIT_ENTRIES \<Longrightarrow>
     ensureInMemoryLimitCapacity now w = w"
  by (simp add: ensureInMemoryLimitCapacity_def)


lemma in_memory_path:
  "kvt \<or> RATE_LIMIT w = None \<Longrightarrow>
     RATE_LIMIT (fst (checkRateLimit ip env now kvt w)) = RATE_LIMIT w"
  by (auto simp: checkRateLimit_def Let_def cleanupInMemoryRateLimit_def
      ensureInMemoryLimitCapacity_def)










section \<open>Rate limiter: the ceiling of the in-memory map\<close>

lemma update_absent: "k \<notin> fst ` set m \<Longrightarrow> AList.update k v m = m @ [(k, v)]"
  by (induction m) auto

lemma ensure_keys:
  "fst ` set (inMemoryRateLimit (ensureInMemoryLimitCapacity now w)) \<subseteq> fst ` set (inMemoryRateLimit w)"
  using evictLoop_keys [of "dropExpired now (inMemoryRateLimit w)"]
    dropExpired_keys [of now "inMemoryRateLimit w"]
  by (auto simp: ensureInMemoryLimitCapacity_def)

lemma dropExpired_live:
  "dropExpired now m = filter (\<lambda>(key, entry). now < resetAt entry) m"
  by (simp add: dropExpired_def not_le)

lemma ensure_exact:
  assumes "distinct (map fst (inMemoryRateLimit w))" and "[] \<notin> fst ` set (inMemoryRateLimit w)"
  shows "inMemoryRateLimit (ensureInMemoryLimitCapacity now w) =
           (if length (inMemoryRateLimit w) < MAX_IN_MEMORY_RATE_LIMIT_ENTRIES then inMemoryRateLimit w
            else drop (length (filter (\<lambda>(key, entry). now < resetAt entry) (inMemoryRateLimit w))
                         - (MAX_IN_MEMORY_RATE_LIMIT_ENTRIES - 1))
                   (filter (\<lambda>(key, entry). now < resetAt entry) (inMemoryRateLimit w)))"
proof -
  have d: "distinct (map fst (dropExpired now (inMemoryRateLimit w)))"
    using assms(1) by (rule distinct_dropExpired)
  have n: "[] \<notin> fst ` set (dropExpired now (inMemoryRateLimit w))"
    using assms(2) dropExpired_keys by blast
  show ?thesis
    using evictLoop_drop [OF d n]
    by (simp add: ensureInMemoryLimitCapacity_def dropExpired_live)
qed

text \<open>
  A call on the in-memory path whose key has no entry in the map, under a positive limit:
  it is allowed, and its entry goes to the end of the map that
  \<open>ensureInMemoryLimitCapacity\<close> has left.
\<close>

lemma mem_new_key:
  assumes path: "kvt \<or> RATE_LIMIT w = None"
      and absent: "map_of (inMemoryRateLimit (cleanupInMemoryRateLimit now w))
                     (rateKey ip (windowStartOf env now)) = None"
      and pos: "0 < parseIntOr (RATE_LIMIT_REQUESTS env) 100"
  shows "fst (checkRateLimit ip env now kvt w) =
           (ensureInMemoryLimitCapacity now (cleanupInMemoryRateLimit now w))
             \<lparr>inMemoryRateLimit :=
                inMemoryRateLimit (ensureInMemoryLimitCapacity now (cleanupInMemoryRateLimit now w))
                @ [(rateKey ip (windowStartOf env now),
                    \<lparr>count = 1, resetAt = windowStartOf env now
                        + parseIntOr (RATE_LIMIT_WINDOW_SECONDS env) 60\<rparr>)]\<rparr>"
    and "allowed (snd (checkRateLimit ip env now kvt w))"
proof -
  let ?w1 = "cleanupInMemoryRateLimit now w"
  let ?key = "rateKey ip (windowStartOf env now)"
  have kv1: "(if kvt then None else RATE_LIMIT ?w1) = None"
    using path by (auto simp: cleanupInMemoryRateLimit_def)
  from absent have "?key \<notin> fst ` set (inMemoryRateLimit ?w1)"
    by (simp add: map_of_eq_None_iff)
  with ensure_keys [of now ?w1]
  have "?key \<notin> fst ` set (inMemoryRateLimit (ensureInMemoryLimitCapacity now ?w1))" by blast
  then have u: "\<And>v. AList.update ?key v (inMemoryRateLimit (ensureInMemoryLimitCapacity now ?w1))
                 = inMemoryRateLimit (ensureInMemoryLimitCapacity now ?w1) @ [(?key, v)]"
    by (rule update_absent)
  show "fst (checkRateLimit ip env now kvt w) =
           (ensureInMemoryLimitCapacity now ?w1)
             \<lparr>inMemoryRateLimit := inMemoryRateLimit (ensureInMemoryLimitCapacity now ?w1)
                @ [(?key, \<lparr>count = 1, resetAt = windowStartOf env now
                        + parseIntOr (RATE_LIMIT_WINDOW_SECONDS env) 60\<rparr>)]\<rparr>"
    unfolding checkRateLimit_def Let_def windowStartOf_def [symmetric]
    using kv1 absent pos u by simp
  show "allowed (snd (checkRateLimit ip env now kvt w))"
    unfolding checkRateLimit_def Let_def windowStartOf_def [symmetric]
    using kv1 absent pos by simp
qed

lemma runCalls_append:
  "fst (runCalls env (xs @ ys) w) = fst (runCalls env ys (fst (runCalls env xs w)))"
proof (induction xs arbitrary: w)
  case Nil
  then show ?case by simp
next
  case (Cons c xs)
  then show ?case by (simp add: runCalls_Cons del: runCalls.simps)
qed

lemma run_none: "RATE_LIMIT w = None \<Longrightarrow> RATE_LIMIT (fst (runCalls env cs w)) = None"
proof (induction cs arbitrary: w)
  case Nil
  then show ?case by simp
next
  case (Cons c cs)
  from Cons.prems have "RATE_LIMIT (fst (checkRateLimit (clientIP c) env (at c) (kvThrows c) w)) = None"
    by (simp add: in_memory_path)
  from Cons.IH [OF this] show ?case by (simp add: runCalls_Cons del: runCalls.simps)
qed

subsection \<open>A crowd of callers fills the map\<close>

lemma ceiling_pos: "0 < MAX_IN_MEMORY_RATE_LIMIT_ENTRIES"
  by (simp add: MAX_IN_MEMORY_RATE_LIMIT_ENTRIES_def)

lemma crowd_Suc: "crowd (Suc n) = crowd n @ [crowdCall n]"
  by (simp add: crowd_def)

lemma crowd_key_absent: "i \<notin> set ns \<Longrightarrow> fst (crowdEntry i) \<notin> fst ` set (map crowdEntry ns)"
proof
  assume i: "i \<notin> set ns" and "fst (crowdEntry i) \<in> fst ` set (map crowdEntry ns)"
  then obtain j where j: "j \<in> set ns" and "fst (crowdEntry i) = fst (crowdEntry j)" by auto
  then have "rateKey (numberToString (int i)) 120 = rateKey (numberToString (int j)) 120"
    by (simp add: crowdEntry_def)
  then have "numberToString (int i) = numberToString (int j)" using rateKey_inj by blast
  then have "int i = int j" by (rule numberToString_inj)
  with i j show False by simp
qed

lemma crowd_distinct: "distinct ns \<Longrightarrow> distinct (map fst (map crowdEntry ns))"
proof (induction ns)
  case Nil
  then show ?case by simp
next
  case (Cons i ns)
  then have "i \<notin> set ns" and "distinct ns" by simp_all
  with Cons.IH crowd_key_absent [of i ns] show ?case by (simp add: image_image)
qed

lemma crowd_nonempty: "[] \<notin> fst ` set (map crowdEntry ns)"
  by (auto simp: crowdEntry_def rateKey_def js_def)

lemma window_125:
  "parseIntOr (RATE_LIMIT_WINDOW_SECONDS env) 60 = 60 \<Longrightarrow> windowStartOf env 125 = 120"
  by (simp add: windowStartOf_def signed_modulo_int_def)

lemma crowd_step:
  assumes W: "parseIntOr (RATE_LIMIT_WINDOW_SECONDS env) 60 = 60"
      and L: "0 < parseIntOr (RATE_LIMIT_REQUESTS env) 100"
      and m: "inMemoryRateLimit w = map crowdEntry ns" and i: "i \<notin> set ns"
      and c: "lastRateLimitCleanup w = 0"
  shows "fst (checkRateLimit (clientIP (crowdCall i)) env (at (crowdCall i)) (kvThrows (crowdCall i)) w)
           = (ensureInMemoryLimitCapacity 125 w)
               \<lparr>inMemoryRateLimit := inMemoryRateLimit (ensureInMemoryLimitCapacity 125 w) @ [crowdEntry i]\<rparr>"
    and "allowed (snd (checkRateLimit (clientIP (crowdCall i)) env (at (crowdCall i))
                         (kvThrows (crowdCall i)) w))"
proof -
  have cl: "cleanupInMemoryRateLimit 125 w = w"
    using c by (simp add: cleanupInMemoryRateLimit_def)
  have ws: "windowStartOf env 125 = 120" using W by (rule window_125)
  have "fst (crowdEntry i) \<notin> fst ` set (inMemoryRateLimit w)"
    unfolding m using i by (rule crowd_key_absent)
  then have ab: "map_of (inMemoryRateLimit (cleanupInMemoryRateLimit 125 w))
                   (rateKey (numberToString (int i)) (windowStartOf env 125)) = None"
    unfolding cl ws by (simp add: map_of_eq_None_iff crowdEntry_def)
  have p: "True \<or> RATE_LIMIT w = None" by simp
  from mem_new_key [OF p ab L]
  show "fst (checkRateLimit (clientIP (crowdCall i)) env (at (crowdCall i)) (kvThrows (crowdCall i)) w)
           = (ensureInMemoryLimitCapacity 125 w)
               \<lparr>inMemoryRateLimit := inMemoryRateLimit (ensureInMemoryLimitCapacity 125 w) @ [crowdEntry i]\<rparr>"
    and "allowed (snd (checkRateLimit (clientIP (crowdCall i)) env (at (crowdCall i))
                         (kvThrows (crowdCall i)) w))"
    unfolding cl ws W by (simp_all add: crowdCall_def crowdEntry_def)
qed

text \<open>Up to the ceiling, every call of the crowd appends its entry.\<close>

lemma run_crowd:
  assumes W: "parseIntOr (RATE_LIMIT_WINDOW_SECONDS env) 60 = 60"
      and L: "0 < parseIntOr (RATE_LIMIT_REQUESTS env) 100"
  shows "n \<le> MAX_IN_MEMORY_RATE_LIMIT_ENTRIES \<Longrightarrow>
           fst (runCalls env (crowd n) (newWorker kv))
             = (newWorker kv)\<lparr>inMemoryRateLimit := map crowdEntry [0..<n]\<rparr>"
proof (induction n)
  case 0
  then show ?case by (simp add: crowd_def newWorker_def)
next
  case (Suc n)
  let ?w = "(newWorker kv)\<lparr>inMemoryRateLimit := map crowdEntry [0..<n]\<rparr>"
  from Suc have run: "fst (runCalls env (crowd n) (newWorker kv)) = ?w" by simp
  have m: "inMemoryRateLimit ?w = map crowdEntry [0..<n]" by simp
  have i: "n \<notin> set [0..<n]" by simp
  have c: "lastRateLimitCleanup ?w = 0" by (simp add: newWorker_def)
  have "length (inMemoryRateLimit ?w) < MAX_IN_MEMORY_RATE_LIMIT_ENTRIES" using Suc.prems by simp
  then have e: "ensureInMemoryLimitCapacity 125 ?w = ?w" by (rule ensure_below)
  from crowd_step(1) [OF W L m i c]
  have "fst (checkRateLimit (clientIP (crowdCall n)) env (at (crowdCall n)) (kvThrows (crowdCall n)) ?w)
          = (newWorker kv)\<lparr>inMemoryRateLimit := map crowdEntry [0..<Suc n]\<rparr>"
    unfolding e by simp
  then show ?case
    unfolding crowd_Suc runCalls_append run by (simp add: runCalls_Cons del: runCalls.simps(2))
qed

lemma ensure_fields:
  "ensureInMemoryLimitCapacity now w
     = w\<lparr>inMemoryRateLimit := inMemoryRateLimit (ensureInMemoryLimitCapacity now w)\<rparr>"
  by (simp add: ensureInMemoryLimitCapacity_def)

text \<open>
  At the ceiling, with every window still open, \<open>ensureInMemoryLimitCapacity\<close> pushes out
  the first entry of the map, that of caller \<open>0\<close>, and the next caller of the crowd takes
  the place it leaves.
\<close>

lemma ensure_at_ceiling:
  "inMemoryRateLimit (ensureInMemoryLimitCapacity 125
       ((newWorker kv)\<lparr>inMemoryRateLimit := map crowdEntry [0..<MAX_IN_MEMORY_RATE_LIMIT_ENTRIES]\<rparr>))
     = map crowdEntry [1..<MAX_IN_MEMORY_RATE_LIMIT_ENTRIES]"
proof -
  let ?N = "MAX_IN_MEMORY_RATE_LIMIT_ENTRIES"
  let ?w = "(newWorker kv)\<lparr>inMemoryRateLimit := map crowdEntry [0..<?N]\<rparr>"
  have m: "inMemoryRateLimit ?w = map crowdEntry [0..<?N]" by simp
  have d: "distinct (map fst (inMemoryRateLimit ?w))" unfolding m by (rule crowd_distinct) simp
  have n: "[] \<notin> fst ` set (inMemoryRateLimit ?w)" unfolding m by (rule crowd_nonempty)
  have live: "filter (\<lambda>(key, entry). 125 < resetAt entry) (map crowdEntry [0..<?N]) = map crowdEntry [0..<?N]"
    by (simp add: filter_id_conv crowdEntry_def)
  have dr: "drop (?N - (?N - 1)) (map crowdEntry [0..<?N]) = map crowdEntry [1..<?N]"
    using ceiling_pos by (simp add: drop_map)
  have len: "length (map crowdEntry [0..<?N]) = ?N" by simp
  show ?thesis
    unfolding ensure_exact [OF d n, of 125] m live len dr by simp
qed

lemma crowd_at_ceiling:
  assumes W: "parseIntOr (RATE_LIMIT_WINDOW_SECONDS env) 60 = 60"
      and L: "0 < parseIntOr (RATE_LIMIT_REQUESTS env) 100"
  shows "fst (runCalls env (crowd (Suc MAX_IN_MEMORY_RATE_LIMIT_ENTRIES)) (newWorker kv))
           = (newWorker kv)\<lparr>inMemoryRateLimit := map crowdEntry [1..<Suc MAX_IN_MEMORY_RATE_LIMIT_ENTRIES]\<rparr>"
proof -
  let ?N = "MAX_IN_MEMORY_RATE_LIMIT_ENTRIES"
  let ?w = "(newWorker kv)\<lparr>inMemoryRateLimit := map crowdEntry [0..<?N]\<rparr>"
  have run: "fst (runCalls env (crowd ?N) (newWorker kv)) = ?w"
    using run_crowd [OF W L, of ?N kv] by simp
  have m: "inMemoryRateLimit ?w = map crowdEntry [0..<?N]" by simp
  have i: "?N \<notin> set [0..<?N]" by simp
  have c: "lastRateLimitCleanup ?w = 0" by (simp add: newWorker_def)
  have e': "ensureInMemoryLimitCapacity 125 ?w = (newWorker kv)\<lparr>inMemoryRateLimit := map crowdEntry [1..<?N]\<rparr>"
    by (subst ensure_fields) (simp only: ensure_at_ceiling, simp)
  have ap: "map crowdEntry [1..<?N] @ [crowdEntry ?N] = map crowdEntry [1..<Suc ?N]"
    using ceiling_pos by simp
  have "fst (checkRateLimit (clientIP (crowdCall ?N)) env (at (crowdCall ?N)) (kvThrows (crowdCall ?N)) ?w)
          = (newWorker kv)\<lparr>inMemoryRateLimit := map crowdEntry [1..<Suc ?N]\<rparr>"
    unfolding crowd_step(1) [OF W L m i c] e' ap [symmetric] by simp
  then show ?thesis
    unfolding crowd_Suc runCalls_append run by (simp add: runCalls_Cons del: runCalls.simps(2))
qed

text \<open>
  C9. After any sequence of calls on a new isolate, whatever the callers, the times, the
  configuration and the KV behaviour, the in-memory map holds at most
  \<open>MAX_IN_MEMORY_RATE_LIMIT_ENTRIES\<close> entries. When the next call arrives at \<open>now\<close> and the
  sweep of \<open>cleanupInMemoryRateLimit\<close> has left the isolate in the state \<open>w\<close>,
  \<open>ensureInMemoryLimitCapacity\<close> leaves the map of \<open>w\<close> as it is below the ceiling; at the
  ceiling it keeps of the entries whose window is still open (\<open>now < resetAt\<close>), in the
  order of the map, the last \<open>MAX_IN_MEMORY_RATE_LIMIT_ENTRIES - 1\<close> (all of them when they
  are fewer), and no entry whose window has elapsed. The map it leaves is under the
  ceiling, and a call counted in memory under a key that has no entry puts its entry at
  the end of that map.
\<close>

theorem C9_fallback_store_bounded:
  assumes "w = cleanupInMemoryRateLimit now (fst (runCalls env cs (newWorker kv)))"
      and "live = filter (\<lambda>(key, entry). now < resetAt entry) (inMemoryRateLimit w)"
  shows "length (inMemoryRateLimit (fst (runCalls env cs (newWorker kv)))) \<le> MAX_IN_MEMORY_RATE_LIMIT_ENTRIES
       \<and> inMemoryRateLimit (ensureInMemoryLimitCapacity now w) =
           (if length (inMemoryRateLimit w) < MAX_IN_MEMORY_RATE_LIMIT_ENTRIES then inMemoryRateLimit w
            else drop (length live - (MAX_IN_MEMORY_RATE_LIMIT_ENTRIES - 1)) live)
       \<and> length (inMemoryRateLimit (ensureInMemoryLimitCapacity now w)) < MAX_IN_MEMORY_RATE_LIMIT_ENTRIES
       \<and> ((kvt \<or> kv = None) \<and> 0 < parseIntOr (RATE_LIMIT_REQUESTS env) 100
            \<and> map_of (inMemoryRateLimit w) (rateKey ip (windowStartOf env now)) = None \<longrightarrow>
          inMemoryRateLimit (fst (checkRateLimit ip env now kvt (fst (runCalls env cs (newWorker kv)))))
            = inMemoryRateLimit (ensureInMemoryLimitCapacity now w)
              @ [(rateKey ip (windowStartOf env now),
                  \<lparr>count = 1, resetAt = windowStartOf env now
                      + parseIntOr (RATE_LIMIT_WINDOW_SECONDS env) 60\<rparr>)])"
proof -
  let ?r = "fst (runCalls env cs (newWorker kv))"
  have "storeOk (newWorker kv)" by (simp add: storeOk_def newWorker_def)
  then have r: "storeOk ?r" by (rule runCalls_storeOk)
  then have "storeOk w" unfolding assms(1) by (rule cleanup_storeOk)
  then have d: "distinct (map fst (inMemoryRateLimit w))" and n: "[] \<notin> fst ` set (inMemoryRateLimit w)"
    by (simp_all add: storeOk_def)
  have c1: "length (inMemoryRateLimit ?r) \<le> MAX_IN_MEMORY_RATE_LIMIT_ENTRIES"
    using r by (simp add: storeOk_def)
  have c2: "inMemoryRateLimit (ensureInMemoryLimitCapacity now w) =
           (if length (inMemoryRateLimit w) < MAX_IN_MEMORY_RATE_LIMIT_ENTRIES then inMemoryRateLimit w
            else drop (length live - (MAX_IN_MEMORY_RATE_LIMIT_ENTRIES - 1)) live)"
    unfolding assms(2) using d n by (rule ensure_exact)
  have c3: "length (inMemoryRateLimit (ensureInMemoryLimitCapacity now w)) < MAX_IN_MEMORY_RATE_LIMIT_ENTRIES"
    using n by (rule ensure_under(1))
  have c4: "(kvt \<or> kv = None) \<and> 0 < parseIntOr (RATE_LIMIT_REQUESTS env) 100
            \<and> map_of (inMemoryRateLimit w) (rateKey ip (windowStartOf env now)) = None \<longrightarrow>
          inMemoryRateLimit (fst (checkRateLimit ip env now kvt ?r))
            = inMemoryRateLimit (ensureInMemoryLimitCapacity now w)
              @ [(rateKey ip (windowStartOf env now),
                  \<lparr>count = 1, resetAt = windowStartOf env now
                      + parseIntOr (RATE_LIMIT_WINDOW_SECONDS env) 60\<rparr>)]"
  proof (intro impI, elim conjE)
    assume p: "kvt \<or> kv = None" and L: "0 < parseIntOr (RATE_LIMIT_REQUESTS env) 100"
      and a: "map_of (inMemoryRateLimit w) (rateKey ip (windowStartOf env now)) = None"
    have "kv = None \<Longrightarrow> RATE_LIMIT ?r = None"
      using run_none [of "newWorker kv" env cs] by (simp add: newWorker_def)
    with p have path: "kvt \<or> RATE_LIMIT ?r = None" by auto
    from mem_new_key(1) [OF path a [unfolded assms(1)] L]
    show "inMemoryRateLimit (fst (checkRateLimit ip env now kvt ?r))
            = inMemoryRateLimit (ensureInMemoryLimitCapacity now w)
              @ [(rateKey ip (windowStartOf env now),
                  \<lparr>count = 1, resetAt = windowStartOf env now
                      + parseIntOr (RATE_LIMIT_WINDOW_SECONDS env) 60\<rparr>)]"
      unfolding assms(1) by simp
  qed
  from c1 c2 c3 c4 show ?thesis by blast
qed

theorem C9_fallback_store_bounded_witness:
  "length (inMemoryRateLimit (fst (runCalls exampleEnv (crowd MAX_IN_MEMORY_RATE_LIMIT_ENTRIES) (newWorker None))))
     = MAX_IN_MEMORY_RATE_LIMIT_ENTRIES
   \<and> cleanupInMemoryRateLimit 125
         (fst (runCalls exampleEnv (crowd MAX_IN_MEMORY_RATE_LIMIT_ENTRIES) (newWorker None)))
       = fst (runCalls exampleEnv (crowd MAX_IN_MEMORY_RATE_LIMIT_ENTRIES) (newWorker None))
   \<and> inMemoryRateLimit (ensureInMemoryLimitCapacity 125
         (fst (runCalls exampleEnv (crowd MAX_IN_MEMORY_RATE_LIMIT_ENTRIES) (newWorker None))))
       = map crowdEntry [1..<MAX_IN_MEMORY_RATE_LIMIT_ENTRIES]
   \<and> cleanupInMemoryRateLimit 200
         (fst (runCalls exampleEnv (crowd MAX_IN_MEMORY_RATE_LIMIT_ENTRIES) (newWorker None)))
       = fst (runCalls exampleEnv (crowd MAX_IN_MEMORY_RATE_LIMIT_ENTRIES) (newWorker None))
   \<and> inMemoryRateLimit (ensureInMemoryLimitCapacity 200
         (fst (runCalls exampleEnv (crowd MAX_IN_MEMORY_RATE_LIMIT_ENTRIES) (newWorker None))))
       = []
   \<and> 0 < parseIntOr (RATE_LIMIT_REQUESTS exampleEnv) 100
   \<and> map_of (inMemoryRateLimit (fst (runCalls exampleEnv (crowd MAX_IN_MEMORY_RATE_LIMIT_ENTRIES) (newWorker None))))
         (rateKey (numberToString (int MAX_IN_MEMORY_RATE_LIMIT_ENTRIES)) (windowStartOf exampleEnv 125)) = None
   \<and> inMemoryRateLimit (fst (checkRateLimit (numberToString (int MAX_IN_MEMORY_RATE_LIMIT_ENTRIES))
         exampleEnv 125 True
         (fst (runCalls exampleEnv (crowd MAX_IN_MEMORY_RATE_LIMIT_ENTRIES) (newWorker None)))))
       = map crowdEntry [1..<Suc MAX_IN_MEMORY_RATE_LIMIT_ENTRIES]"
proof -
  let ?N = "MAX_IN_MEMORY_RATE_LIMIT_ENTRIES"
  let ?w = "(newWorker None)\<lparr>inMemoryRateLimit := map crowdEntry [0..<?N]\<rparr>"
  let ?ip = "numberToString (int ?N)"
  have L: "0 < parseIntOr (RATE_LIMIT_REQUESTS exampleEnv) 100" by (simp add: exampleEnv_limit)
  have run: "fst (runCalls exampleEnv (crowd ?N) (newWorker None)) = ?w"
    using run_crowd [OF exampleEnv_window L, of ?N None] by simp
  have m: "inMemoryRateLimit ?w = map crowdEntry [0..<?N]" by simp
  have len: "length (map crowdEntry [0..<?N]) = ?N" by simp
  have nlt: "\<not> ?N < ?N" by simp
  have cl1: "cleanupInMemoryRateLimit 125 ?w = ?w"
    by (simp add: cleanupInMemoryRateLimit_def newWorker_def)
  have cl2: "cleanupInMemoryRateLimit 200 ?w = ?w"
    by (simp add: cleanupInMemoryRateLimit_def newWorker_def)
  have live1: "filter (\<lambda>(key, entry). 125 < resetAt entry) (map crowdEntry [0..<?N]) = map crowdEntry [0..<?N]"
    by (simp add: filter_id_conv crowdEntry_def)
  have live2: "filter (\<lambda>(key, entry). 200 < resetAt entry) (map crowdEntry [0..<?N]) = []"
    by (simp add: filter_empty_conv crowdEntry_def)
  have dr: "drop (?N - (?N - 1)) (map crowdEntry [0..<?N]) = map crowdEntry [1..<?N]"
    using ceiling_pos by (simp add: drop_map)
  have ws: "windowStartOf exampleEnv 125 = 120" using exampleEnv_window by (rule window_125)
  have "fst (crowdEntry ?N) \<notin> fst ` set (map crowdEntry [0..<?N])"
    by (rule crowd_key_absent) simp
  then have ab: "map_of (inMemoryRateLimit ?w) (rateKey ?ip (windowStartOf exampleEnv 125)) = None"
    unfolding m ws by (simp add: map_of_eq_None_iff crowdEntry_def)
  note t1 = C9_fallback_store_bounded [OF refl refl, where now=125 and env=exampleEnv
      and cs="crowd ?N" and kv=None and kvt=True and ip="?ip", unfolded run cl1 m live1 len dr]
  note t2 = C9_fallback_store_bounded [OF refl refl, where now=200 and env=exampleEnv
      and cs="crowd ?N" and kv=None and kvt=True and ip="?ip", unfolded run cl2 m live2 len]
  have f1: "length (inMemoryRateLimit ?w) = ?N" by simp
  have f3: "inMemoryRateLimit (ensureInMemoryLimitCapacity 125 ?w) = map crowdEntry [1..<?N]"
    using t1 [THEN conjunct2, THEN conjunct1] by (simp only: nlt if_False)
  have f5: "inMemoryRateLimit (ensureInMemoryLimitCapacity 200 ?w) = []"
    using t2 [THEN conjunct2, THEN conjunct1] by (simp only: nlt if_False list.size drop_Nil)
  have hyp: "(True \<or> None = None) \<and> 0 < parseIntOr (RATE_LIMIT_REQUESTS exampleEnv) 100
       \<and> map_of (map crowdEntry [0..<?N]) (rateKey ?ip (windowStartOf exampleEnv 125)) = None"
    using L ab by simp
  have ap: "map crowdEntry [1..<?N] @ [crowdEntry ?N] = map crowdEntry [1..<Suc ?N]"
    using ceiling_pos by simp
  have "inMemoryRateLimit (fst (checkRateLimit ?ip exampleEnv 125 True ?w))
          = inMemoryRateLimit (ensureInMemoryLimitCapacity 125 ?w)
            @ [(rateKey ?ip (windowStartOf exampleEnv 125),
                \<lparr>count = 1, resetAt = windowStartOf exampleEnv 125
                    + parseIntOr (RATE_LIMIT_WINDOW_SECONDS exampleEnv) 60\<rparr>)]"
    using t1 [THEN conjunct2, THEN conjunct2, THEN conjunct2, THEN mp, OF hyp] .
  then have f8: "inMemoryRateLimit (fst (checkRateLimit ?ip exampleEnv 125 True ?w))
          = map crowdEntry [1..<Suc ?N]"
    unfolding f3 ws exampleEnv_window ap [symmetric] by (simp add: crowdEntry_def)
  show ?thesis
    unfolding run by (intro conjI f1 cl1 f3 cl2 f5 L ab f8)
qed
section \<open>Rate limiter: the limit of a window\<close>

lemma strictEnv_limit: "parseIntOr (RATE_LIMIT_REQUESTS strictEnv) 100 = 1"
  by (simp add: strictEnv_def parseIntOr_def parseInt_def isWhiteSpace_def digitValue_def
      Let_def js_def)

lemma strictEnv_window: "parseIntOr (RATE_LIMIT_WINDOW_SECONDS strictEnv) 60 = 60"
  by (simp add: strictEnv_def parseIntOr_def parseInt_def isWhiteSpace_def digitValue_def
      Let_def js_def)

lemma allowedCalls_append:
  "allowedCalls env ip ws (xs @ ys) w
     = allowedCalls env ip ws xs w + allowedCalls env ip ws ys (fst (runCalls env xs w))"
proof (induction xs arbitrary: w)
  case Nil
  then show ?case by simp
next
  case (Cons c xs)
  then show ?case by (simp add: runCalls_Cons del: runCalls.simps)
qed

lemma belowCeiling_append:
  "belowCeiling env (xs @ ys) w
     \<longleftrightarrow> belowCeiling env xs w \<and> belowCeiling env ys (fst (runCalls env xs w))"
proof (induction xs arbitrary: w)
  case Nil
  then show ?case by simp
next
  case (Cons c xs)
  then show ?case by (simp add: runCalls_Cons del: runCalls.simps)
qed

lemma sorted_const: "\<forall>x \<in> set xs. f x = (c :: int) \<Longrightarrow> sorted (map f xs)"
  by (induction xs) auto




subsection \<open>What the bound rests on\<close>

text \<open>
  A counter evicted at the ceiling is counted again from zero. Limit 1, no KV binding:
  caller \<open>0\<close> is allowed at second 125; the callers \<open>1\<close> to \<open>10000\<close> follow in the same
  second, and the last of them finds the map at its ceiling and pushes out the entry of
  caller \<open>0\<close>; caller \<open>0\<close>, still in second 125, is allowed a second time.
\<close>

lemma eviction_resets_counter:
  "parseIntOr (RATE_LIMIT_REQUESTS strictEnv) 100 = 1
   \<and> windowStartOf strictEnv 125 = 120
   \<and> sorted (map at (crowd (Suc MAX_IN_MEMORY_RATE_LIMIT_ENTRIES) @ [crowdCall 0]))
   \<and> \<not> belowCeiling strictEnv (crowd (Suc MAX_IN_MEMORY_RATE_LIMIT_ENTRIES) @ [crowdCall 0])
           (newWorker None)
   \<and> 2 \<le> allowedCalls strictEnv (clientIP (crowdCall 0)) 120
           (crowd (Suc MAX_IN_MEMORY_RATE_LIMIT_ENTRIES) @ [crowdCall 0]) (newWorker None)"
proof -
  let ?N = "MAX_IN_MEMORY_RATE_LIMIT_ENTRIES"
  let ?ip = "clientIP (crowdCall 0)"
  have L: "0 < parseIntOr (RATE_LIMIT_REQUESTS strictEnv) 100" by (simp add: strictEnv_limit)
  note W = strictEnv_window
  have ws: "windowStartOf strictEnv 125 = 120" using W by (rule window_125)
  have at: "\<And>i. at (crowdCall i) = 125" by (simp add: crowdCall_def)
  have "\<forall>c \<in> set (crowd (Suc ?N) @ [crowdCall 0]). at c = 125"
    by (auto simp: crowd_def at)
  then have s: "sorted (map at (crowd (Suc ?N) @ [crowdCall 0]))"
    by (rule sorted_const)
  have full: "fst (runCalls strictEnv (crowd ?N) (newWorker None))
                = (newWorker None)\<lparr>inMemoryRateLimit := map crowdEntry [0..<?N]\<rparr>"
    using run_crowd [OF W L, of ?N None] by simp
  have "\<not> belowCeiling strictEnv ([crowdCall ?N] @ [crowdCall 0])
            (fst (runCalls strictEnv (crowd ?N) (newWorker None)))"
    unfolding full by simp
  then have "\<not> belowCeiling strictEnv (crowd ?N @ ([crowdCall ?N] @ [crowdCall 0])) (newWorker None)"
    using belowCeiling_append [of strictEnv "crowd ?N" "[crowdCall ?N] @ [crowdCall 0]" "newWorker None"]
    by blast
  moreover have "crowd (Suc ?N) @ [crowdCall 0] = crowd ?N @ ([crowdCall ?N] @ [crowdCall 0])"
    by (simp add: crowd_Suc)
  ultimately have b: "\<not> belowCeiling strictEnv (crowd (Suc ?N) @ [crowdCall 0]) (newWorker None)"
    by (simp only: simp_thms)
  have m0: "inMemoryRateLimit (newWorker None) = map crowdEntry []" by (simp add: newWorker_def)
  have c0: "lastRateLimitCleanup (newWorker None) = 0" by (simp add: newWorker_def)
  have i0: "0 \<notin> set ([] :: nat list)" by simp
  have first: "allowed (snd (checkRateLimit ?ip strictEnv (at (crowdCall 0)) (kvThrows (crowdCall 0))
                   (newWorker None)))"
    using crowd_step(2) [OF W L m0 i0 c0] .
  have "[0..<Suc ?N] = 0 # [Suc 0..<Suc ?N]" by (rule upt_conv_Cons) simp
  then have cr: "crowd (Suc ?N) = crowdCall 0 # map crowdCall [1..<Suc ?N]"
    unfolding crowd_def by simp
  have one: "1 \<le> allowedCalls strictEnv ?ip 120 (crowd (Suc ?N)) (newWorker None)"
    unfolding cr using first by (simp add: at ws)
  let ?w = "(newWorker None)\<lparr>inMemoryRateLimit := map crowdEntry [1..<Suc ?N]\<rparr>"
  have after: "fst (runCalls strictEnv (crowd (Suc ?N)) (newWorker None)) = ?w"
    using W L by (rule crowd_at_ceiling)
  have m1: "inMemoryRateLimit ?w = map crowdEntry [1..<Suc ?N]" by simp
  have c1: "lastRateLimitCleanup ?w = 0" by (simp add: newWorker_def)
  have i1: "0 \<notin> set [1..<Suc ?N]" by simp
  have again: "allowed (snd (checkRateLimit ?ip strictEnv (at (crowdCall 0)) (kvThrows (crowdCall 0)) ?w))"
    using crowd_step(2) [OF W L m1 i1 c1] .
  then have two: "allowedCalls strictEnv ?ip 120 [crowdCall 0] ?w = 1"
    by (simp add: at ws)
  have "2 \<le> allowedCalls strictEnv ?ip 120 (crowd (Suc ?N) @ [crowdCall 0]) (newWorker None)"
    unfolding allowedCalls_append after two using one by simp
  with s b ws show ?thesis by (simp add: strictEnv_limit)
qed

text \<open>
  A clock that goes back reopens a window whose entry a sweep has dropped. Limit 1, no KV
  binding: caller \<open>1.2.3.4\<close> is allowed at second 100000, in the window that starts at
  99960; a call at second 200000 runs the daily sweep, which drops that entry; a third
  call, of \<open>1.2.3.4\<close> with the clock back at 100000, is allowed again.
\<close>

lemma clock_back_resets_counter:
  "windowStartOf strictEnv 100000 = 99960
   \<and> \<not> sorted (map at [\<lparr>clientIP = js ''1.2.3.4'', at = 100000, kvThrows = False\<rparr>,
                         \<lparr>clientIP = js ''5.6.7.8'', at = 200000, kvThrows = False\<rparr>,
                         \<lparr>clientIP = js ''1.2.3.4'', at = 100000, kvThrows = False\<rparr>])
   \<and> belowCeiling strictEnv [\<lparr>clientIP = js ''1.2.3.4'', at = 100000, kvThrows = False\<rparr>,
                         \<lparr>clientIP = js ''5.6.7.8'', at = 200000, kvThrows = False\<rparr>,
                         \<lparr>clientIP = js ''1.2.3.4'', at = 100000, kvThrows = False\<rparr>] (newWorker None)
   \<and> allowedCalls strictEnv (js ''1.2.3.4'') 99960
        [\<lparr>clientIP = js ''1.2.3.4'', at = 100000, kvThrows = False\<rparr>,
         \<lparr>clientIP = js ''5.6.7.8'', at = 200000, kvThrows = False\<rparr>,
         \<lparr>clientIP = js ''1.2.3.4'', at = 100000, kvThrows = False\<rparr>] (newWorker None) = 2"
  by (simp add: checkRateLimit_def windowStartOf_def strictEnv_limit strictEnv_window Let_def
      newWorker_def cleanupInMemoryRateLimit_def dropExpired_def ensureInMemoryLimitCapacity_def
      MAX_IN_MEMORY_RATE_LIMIT_ENTRIES_def signed_modulo_int_def rateKey_def numberToString_def
      digitsOf.simps js_def)

text \<open>
  A negative window length puts \<open>resetAt\<close> before the window's start, so that the daily
  sweep drops the entry of a window that is still open. Limit 1, window \<open>-60\<close>, no KV
  binding: after a call at second 86410, caller \<open>1.2.3.4\<close> is allowed at 172805 and,
  the sweep having run, again at 172815, both in the window that starts at 172800.
\<close>

lemma negativeWindowEnv_limit: "parseIntOr (RATE_LIMIT_REQUESTS negativeWindowEnv) 100 = 1"
  by (simp add: negativeWindowEnv_def parseIntOr_def parseInt_def isWhiteSpace_def digitValue_def
      Let_def js_def)

lemma negativeWindowEnv_window: "parseIntOr (RATE_LIMIT_WINDOW_SECONDS negativeWindowEnv) 60 = - 60"
  by (simp add: negativeWindowEnv_def parseIntOr_def parseInt_def isWhiteSpace_def digitValue_def
      Let_def js_def)

lemma negative_window_resets_counter:
  "parseIntOr (RATE_LIMIT_REQUESTS negativeWindowEnv) 100 = 1
   \<and> parseIntOr (RATE_LIMIT_WINDOW_SECONDS negativeWindowEnv) 60 = - 60
   \<and> windowStartOf negativeWindowEnv 172805 = 172800
   \<and> windowStartOf negativeWindowEnv 172815 = 172800
   \<and> sorted (map at [\<lparr>clientIP = js ''5.6.7.8'', at = 86410, kvThrows = False\<rparr>,
                       \<lparr>clientIP = js ''1.2.3.4'', at = 172805, kvThrows = False\<rparr>,
                       \<lparr>clientIP = js ''1.2.3.4'', at = 172815, kvThrows = False\<rparr>])
   \<and> belowCeiling negativeWindowEnv
        [\<lparr>clientIP = js ''5.6.7.8'', at = 86410, kvThrows = False\<rparr>,
         \<lparr>clientIP = js ''1.2.3.4'', at = 172805, kvThrows = False\<rparr>,
         \<lparr>clientIP = js ''1.2.3.4'', at = 172815, kvThrows = False\<rparr>] (newWorker None)
   \<and> allowedCalls negativeWindowEnv (js ''1.2.3.4'') 172800
        [\<lparr>clientIP = js ''5.6.7.8'', at = 86410, kvThrows = False\<rparr>,
         \<lparr>clientIP = js ''1.2.3.4'', at = 172805, kvThrows = False\<rparr>,
         \<lparr>clientIP = js ''1.2.3.4'', at = 172815, kvThrows = False\<rparr>] (newWorker None) = 2"
  by (simp add: checkRateLimit_def windowStartOf_def negativeWindowEnv_limit negativeWindowEnv_window
      Let_def newWorker_def cleanupInMemoryRateLimit_def dropExpired_def ensureInMemoryLimitCapacity_def
      MAX_IN_MEMORY_RATE_LIMIT_ENTRIES_def signed_modulo_int_def rateKey_def numberToString_def
      digitsOf.simps js_def)

text \<open>
  Under a negative limit no call is allowed, not even a caller's first, and the number of
  allowed calls, zero, is above the limit.
\<close>

lemma negativeLimitEnv_limit: "parseIntOr (RATE_LIMIT_REQUESTS negativeLimitEnv) 100 = - 5"
  by (simp add: negativeLimitEnv_def parseIntOr_def parseInt_def isWhiteSpace_def digitValue_def
      Let_def js_def)

lemma negativeLimitEnv_window: "parseIntOr (RATE_LIMIT_WINDOW_SECONDS negativeLimitEnv) 60 = 60"
  by (simp add: negativeLimitEnv_def parseIntOr_def parseInt_def isWhiteSpace_def digitValue_def
      Let_def js_def)

lemma negative_limit_allows_nothing:
  "parseIntOr (RATE_LIMIT_REQUESTS negativeLimitEnv) 100 = - 5
   \<and> \<not> allowed (snd (checkRateLimit (js ''1.2.3.4'') negativeLimitEnv 125 False (newWorker None)))
   \<and> \<not> int (allowedCalls negativeLimitEnv (js ''1.2.3.4'') 120
              [\<lparr>clientIP = js ''1.2.3.4'', at = 125, kvThrows = False\<rparr>] (newWorker None))
        \<le> parseIntOr (RATE_LIMIT_REQUESTS negativeLimitEnv) 100"
  by (simp add: checkRateLimit_def windowStartOf_def negativeLimitEnv_limit negativeLimitEnv_window
      Let_def newWorker_def cleanupInMemoryRateLimit_def dropExpired_def ensureInMemoryLimitCapacity_def
      MAX_IN_MEMORY_RATE_LIMIT_ENTRIES_def signed_modulo_int_def)
section \<open>Cache key derivation\<close>

lemma collect_Inr:
  "(\<forall>r \<in> set rs. \<exists>x. r = Inr x) \<Longrightarrow> \<exists>xs. collect rs = Inr xs"
proof (induction rs)
  case Nil
  then show ?case by simp
next
  case (Cons r rs)
  then obtain x xs where "r = Inr x" "collect rs = Inr xs" by auto
  then show ?case by simp
qed

lemma serialize_total: "noBigInt v \<Longrightarrow> \<exists>s. serialize K v = Inr s"
proof (induction v)
  case (JArr xs)
  have "\<forall>r \<in> set (map (serialize K) xs). \<exists>x. r = Inr x"
    using JArr by (auto simp: list_all_iff)
  from collect_Inr [OF this] show ?case by auto
next
  case (JObj ps)
  let ?ser = "map (\<lambda>(P, v). (P, serialize K v)) ps"
  have ok: "\<And>P r. map_of ?ser P = Some r \<Longrightarrow> \<exists>s. r = Inr s"
  proof -
    fix P r assume "map_of ?ser P = Some r"
    then have "(P, r) \<in> set ?ser" by (rule map_of_SomeD)
    then obtain v where pv: "(P, v) \<in> set ps" and r: "r = serialize K v" by auto
    from pv JObj.prems have "noBigInt v" by (auto simp: list_all_iff)
    moreover from pv have "v \<in> Basic_BNFs.snds (P, v)" by simp
    ultimately show "\<exists>s. r = Inr s" using JObj.IH pv r by blast
  qed
  have "\<forall>r \<in> set (map (\<lambda>P. case map_of ?ser P of
                                  None \<Rightarrow> Inr (P, None)
                                | Some r \<Rightarrow> (case r of Inl e \<Rightarrow> Inl e | Inr strP \<Rightarrow> Inr (P, strP))) K).
          \<exists>x. r = Inr x"
    using ok by (auto split: option.splits sum.splits)
  from collect_Inr [OF this] show ?case by (auto simp: Let_def)
qed simp_all

lemma generateKey_total:
  "noBigInt variables \<Longrightarrow> \<exists>key. generateKey (JStr q) variables = Inr key"
  using serialize_total [of variables "propertyList (sort (objectKeys variables))"]
  by (auto simp: generateKey_def stringify_def Let_def split: option.splits)

lemma serialize_field_order:
  assumes "sameUpToFieldOrder ps qs"
  shows "serialize K (JObj ps) = serialize K (JObj qs)"
proof -
  from assms have "map_of ps = map_of qs"
    by (simp add: sameUpToFieldOrder_def map_of_inject_set)
  then have "map_of (map (\<lambda>(P, v). (P, serialize K v)) ps) = map_of (map (\<lambda>(P, v). (P, serialize K v)) qs)"
    by (simp add: map_of_map)
  then show ?thesis by (simp add: Let_def)
qed

lemma keys_field_order:
  assumes "sameUpToFieldOrder ps qs"
  shows "sort (objectKeys (JObj ps)) = sort (objectKeys (JObj qs))"
proof -
  from assms have "set (map fst ps) = set (map fst qs)"
    by (simp add: sameUpToFieldOrder_def)
  moreover from assms have "distinct (map fst ps)" "distinct (map fst qs)"
    by (simp_all add: sameUpToFieldOrder_def)
  ultimately show ?thesis
    by (intro sorted_distinct_set_unique) simp_all
qed

lemma generateKey_field_order:
  assumes "sameUpToFieldOrder ps qs"
  shows "generateKey query (JObj ps) = generateKey query (JObj qs)"
proof -
  have k: "sort (objectKeys (JObj ps)) = sort (objectKeys (JObj qs))"
    using assms by (rule keys_field_order)
  have st: "stringify (JObj ps) K = stringify (JObj qs) K" for K
    unfolding stringify_def by (simp only: serialize_field_order [OF assms])
  show ?thesis
    unfolding generateKey_def by (simp only: k st truthy.simps)
qed


lemma dropWhile_run: "list_all isWhiteSpace ws \<Longrightarrow> dropWhile isWhiteSpace (ws @ b) = dropWhile isWhiteSpace b"
  by (simp add: list_all_iff)

lemma dropWhile_all: "list_all isWhiteSpace ws \<Longrightarrow> dropWhile isWhiteSpace ws = []"
  by (simp add: list_all_iff)

lemma collapse_run:
  "ws \<noteq> [] \<Longrightarrow> list_all isWhiteSpace ws \<Longrightarrow>
     collapseWhitespace (ws @ b) = 32 # collapseWhitespace (dropWhile isWhiteSpace b)"
  by (cases ws) (simp_all add: dropWhile_run)

lemma dropWhile_append_cases:
  "dropWhile P (xs @ ys) = (if list_all P xs then dropWhile P ys else dropWhile P xs @ ys)"
  by (induction xs) auto

lemma collapse_replace_run:
  assumes "ws \<noteq> []" "ws' \<noteq> []" "list_all isWhiteSpace ws" "list_all isWhiteSpace ws'"
  shows "collapseWhitespace (a @ ws @ b) = collapseWhitespace (a @ ws' @ b)"
proof (induction a rule: collapseWhitespace.induct)
  case 1
  show ?case using assms by (simp add: collapse_run)
next
  case (2 u us)
  show ?case
  proof (cases "isWhiteSpace u")
    case False
    with 2 show ?thesis by simp
  next
    case True
    show ?thesis
    proof (cases "list_all isWhiteSpace us")
      case all: True
      with True assms show ?thesis
        by (simp add: dropWhile_append_cases dropWhile_run)
    next
      case notall: False
      with True 2(1) show ?thesis
        by (simp add: dropWhile_append_cases)
    qed
  qed
qed

lemma isWhiteSpace_space: "isWhiteSpace 32"
  by (simp add: isWhiteSpace_def)

lemma collapse_head:
  "b = [] \<or> \<not> isWhiteSpace (hd b) \<Longrightarrow>
     dropWhile isWhiteSpace (collapseWhitespace b) = collapseWhitespace b"
  by (cases b) auto

lemma dropWhile_head: "dropWhile P b = [] \<or> \<not> P (hd (dropWhile P b))"
  using hd_dropWhile [of P b] by blast

lemma dropWhile_collapse:
  "dropWhile isWhiteSpace (collapseWhitespace b) = collapseWhitespace (dropWhile isWhiteSpace b)"
proof (cases b)
  case Nil
  then show ?thesis by simp
next
  case (Cons u us)
  show ?thesis
  proof (cases "isWhiteSpace u")
    case True
    with Cons show ?thesis
      using collapse_head [OF dropWhile_head [of isWhiteSpace us]]
      by (simp add: isWhiteSpace_space)
  next
    case False
    with Cons show ?thesis by simp
  qed
qed

lemma collapse_trailing:
  assumes "list_all isWhiteSpace ws"
  shows "\<exists>t. list_all isWhiteSpace t \<and> collapseWhitespace (a @ ws) = collapseWhitespace a @ t"
proof (induction a rule: collapseWhitespace.induct)
  case 1
  show ?case
  proof (cases ws)
    case Nil
    then show ?thesis by simp
  next
    case (Cons w ws')
    with assms have "collapseWhitespace ws = [32]" by (simp add: dropWhile_all)
    then show ?thesis by (simp add: isWhiteSpace_space)
  qed
next
  case (2 u us)
  show ?case
  proof (cases "isWhiteSpace u")
    case False
    with 2 show ?thesis by simp
  next
    case True
    show ?thesis
    proof (cases "list_all isWhiteSpace us")
      case all: True
      with True assms show ?thesis
        by (simp add: dropWhile_append_cases dropWhile_all)
    next
      case notall: False
      with True 2(1) show ?thesis
        by (simp add: dropWhile_append_cases)
    qed
  qed
qed

lemma trim_trailing: "list_all isWhiteSpace t \<Longrightarrow> trim (x @ t) = trim x"
  by (simp add: trim_def dropWhile_append_cases dropWhile_all list_all_iff)

lemma normalize_cosmetic:
  "sameUpToWhitespace p q \<Longrightarrow> trim (collapseWhitespace p) = trim (collapseWhitespace q)"
proof (induction rule: sameUpToWhitespace.induct)
  case (run ws ws' a b)
  then show ?case by (simp add: collapse_replace_run [of ws ws'])
next
  case (leading ws b)
  then show ?case by (simp add: trim_def dropWhile_collapse dropWhile_run)
next
  case (trailing ws a)
  from collapse_trailing [OF this, of a] show ?case by (auto simp: trim_trailing)
qed simp_all

lemma generateKey_whitespace:
  "sameUpToWhitespace p q \<Longrightarrow> generateKey (JStr p) variables = generateKey (JStr q) variables"
  by (simp add: generateKey_def normalize_cosmetic)


lemma collect_Inl:
  "Inl e \<in> set rs \<Longrightarrow> \<exists>e'. collect rs = Inl e'"
proof (induction rs)
  case Nil
  then show ?case by simp
next
  case (Cons r rs)
  show ?case
  proof (cases r)
    case (Inl a)
    then show ?thesis by simp
  next
    case (Inr x)
    with Cons.prems have "Inl e \<in> set rs" by auto
    from Cons.IH [OF this] obtain e' where "collect rs = Inl e'" by blast
    with Inr show ?thesis by simp
  qed
qed

lemma serialize_bigint_field:
  assumes f: "map_of ps k = Some (JBigInt n)" and k: "k \<in> set K"
  shows "serialize K (JObj ps) = Inl TypeError"
proof -
  let ?ser = "map (\<lambda>(P, v). (P, serialize K v)) ps"
  let ?g = "\<lambda>P. case map_of ?ser P of
                None \<Rightarrow> Inr (P, None)
              | Some r \<Rightarrow> (case r of Inl e \<Rightarrow> Inl e | Inr strP \<Rightarrow> Inr (P, strP))"
  have "map_of ?ser k = map_option (serialize K) (map_of ps k)"
    by (simp add: map_of_map)
  with f have "map_of ?ser k = Some (Inl TypeError)" by simp
  then have "?g k = Inl TypeError" by simp
  with k have "Inl TypeError \<in> set (map ?g K)" by force
  from collect_Inl [OF this] obtain e' where c: "collect (map ?g K) = Inl e'" by blast
  have "e' = TypeError" by (cases e') simp
  with c show ?thesis by (simp add: Let_def)
qed

lemma generateKey_bigint_field:
  assumes "map_of ps k = Some (JBigInt n)"
  shows "generateKey (JStr q) (JObj ps) = Inl TypeError"
proof -
  from assms have "(k, JBigInt n) \<in> set ps" by (rule map_of_SomeD)
  then have "k \<in> set (map fst ps)" by force
  then have "k \<in> set (propertyList (sort (objectKeys (JObj ps))))"
    by (simp add: propertyList_def)
  from serialize_bigint_field [OF assms this] show ?thesis
    by (simp add: generateKey_def stringify_def Let_def)
qed

text \<open>
  C8, as the code has it. For a query string and variables that hold no BigInt at any
  depth (\<open>undefined\<close>, \<open>null\<close>, booleans, numbers, strings, arrays and plain objects of
  these), \<open>generateKey\<close> returns a key. For a variables object one of whose own fields is a
  BigInt it throws a \<open>TypeError\<close>. Query texts that are the same up to white space give
  the same key, and so do variables objects that hold the same fields in a different
  order.
\<close>

theorem C8_generateKey_canonical:
  "(noBigInt variables \<longrightarrow> (\<exists>key. generateKey (JStr q) variables = Inr key))
   \<and> (map_of fs name = Some (JBigInt n) \<longrightarrow>
        generateKey (JStr q) (JObj fs) = Inl TypeError)
   \<and> (sameUpToWhitespace p p' \<longrightarrow>
        generateKey (JStr p) variables = generateKey (JStr p') variables)
   \<and> (sameUpToFieldOrder ps qs \<longrightarrow>
        generateKey query (JObj ps) = generateKey query (JObj qs))"
  using generateKey_total [of variables q] generateKey_whitespace [of p p' variables]
    generateKey_field_order [of ps qs query] generateKey_bigint_field [of fs name n q]
  by blast

theorem C8_generateKey_canonical_witness:
  "noBigInt (JObj [(js ''b'', JNum 2), (js ''a'', JNum 1)])
   \<and> generateKey (JStr (js ''query  { a }'')) (JArr [JNum 1, JUndefined])
       = Inr (js ''query { a }::[1,null]'')
   \<and> map_of [(js ''a'', JNum 1), (js ''id'', JBigInt 7)] (js ''id'') = Some (JBigInt 7)
   \<and> generateKey (JStr (js ''query  { a }'')) (JObj [(js ''a'', JNum 1), (js ''id'', JBigInt 7)])
       = Inl TypeError
   \<and> sameUpToWhitespace (js ''query  { a }'') (js ''query { a }'')
   \<and> generateKey (JStr (js ''query  { a }'')) (JObj [(js ''b'', JNum 2), (js ''a'', JNum 1)])
       = generateKey (JStr (js ''query { a }'')) (JObj [(js ''b'', JNum 2), (js ''a'', JNum 1)])
   \<and> sameUpToFieldOrder [(js ''b'', JNum 2), (js ''a'', JNum 1)] [(js ''a'', JNum 1), (js ''b'', JNum 2)]
   \<and> generateKey (JStr (js ''query  { a }'')) (JObj [(js ''b'', JNum 2), (js ''a'', JNum 1)])
       = generateKey (JStr (js ''query  { a }'')) (JObj [(js ''a'', JNum 1), (js ''b'', JNum 2)])"
proof -
  let ?v = "JObj [(js ''b'', JNum 2), (js ''a'', JNum 1)]"
  have h1: "noBigInt ?v" by simp
  have "sameUpToWhitespace (js ''query'' @ js ''  '' @ js ''{ a }'') (js ''query'' @ js '' '' @ js ''{ a }'')"
    by (rule sameUpToWhitespace.run) (simp_all add: js_def isWhiteSpace_def)
  then have h2: "sameUpToWhitespace (js ''query  { a }'') (js ''query { a }'')"
    by (simp add: js_def)
  have h3: "sameUpToFieldOrder [(js ''b'', JNum 2), (js ''a'', JNum 1)] [(js ''a'', JNum 1), (js ''b'', JNum 2)]"
    by (auto simp: sameUpToFieldOrder_def js_def)
  have h4: "map_of [(js ''a'', JNum 1), (js ''id'', JBigInt 7)] (js ''id'') = Some (JBigInt 7)"
    by (simp add: js_def)
  have e: "generateKey (JStr (js ''query  { a }'')) (JArr [JNum 1, JUndefined])
             = Inr (js ''query { a }::[1,null]'')"
    by (simp add: generateKey_def stringify_def propertyList_def Let_def)
       (simp add: js_def trim_def isWhiteSpace_def numberToString_def digitsOf.simps)
  note t = C8_generateKey_canonical [where variables="?v" and q="js ''query  { a }''"
      and p="js ''query  { a }''" and p'="js ''query { a }''"
      and ps="[(js ''b'', JNum 2), (js ''a'', JNum 1)]" and qs="[(js ''a'', JNum 1), (js ''b'', JNum 2)]"
      and query="JStr (js ''query  { a }'')"
      and fs="[(js ''a'', JNum 1), (js ''id'', JBigInt 7)]" and name="js ''id''" and n=7]
  from t h1 h2 h3 h4 e show ?thesis by blast
qed

text \<open>
  The key derivation is not total on every variables object: \<open>JSON.stringify\<close> throws a
  \<open>TypeError\<close> on a BigInt field, and \<open>generateKey\<close> does not catch it.
\<close>

theorem C8_bigint_counterexample:
  "generateKey (JStr (js ''q'')) (JObj [(js ''a'', JBigInt 1)]) = Inl TypeError"
  by (simp add: generateKey_def stringify_def propertyList_def Let_def)

section \<open>The proxy route and the response cache\<close>

lemma routeCheckRateLimit_cache:
  "serverCache (fst (routeCheckRateLimit now request s)) = serverCache s"
  by (simp add: routeCheckRateLimit_def cleanupRateLimit_def Let_def split: option.splits)

lemma routeCheckRateLimit_frame:
  "routeCheckRateLimit now request (s\<lparr>serverCache := c\<rparr>) =
     ((fst (routeCheckRateLimit now request s))\<lparr>serverCache := c\<rparr>,
      snd (routeCheckRateLimit now request s))"
  by (simp add: routeCheckRateLimit_def cleanupRateLimit_def Let_def split: option.splits)

lemma POST_authenticated:
  assumes "jsonBody request = Some (JObj ps)"
      and "map_of ps (js ''publicId'') = Some publicId" and "truthy publicId"
      and "map_of ps (js ''secretKey'') = Some secretKey" and "truthy secretKey"
  shows "POST now later request upstream s0 =
     (let (s, rateLimitResult) = routeCheckRateLimit now request s0 in
      if \<not> allowed rateLimitResult
      then (s, \<lparr>status = 429, body = RateLimited (retryAfter rateLimitResult),
                headers = [(js ''Retry-After'',
                              numberToString (case retryAfter rateLimitResult of None \<Rightarrow> 1 | Some n \<Rightarrow> n)),
                           (js ''X-RateLimit-Limit'', numberToString RATE_LIMIT_MAX),
                           (js ''X-RateLimit-Remaining'', js ''0''),
                           (js ''X-RateLimit-Reset'', numberToString (res_resetAt rateLimitResult))]\<rparr>)
      else (case map_of ps (js ''query'') of
          None \<Rightarrow> (s, \<lparr>status = 400, body = ErrorMessage (js ''Query is required''), headers = []\<rparr>)
        | Some query \<Rightarrow>
           if \<not> truthy query
           then (s, \<lparr>status = 400, body = ErrorMessage (js ''Query is required''), headers = []\<rparr>)
           else (case generateKey query (case map_of ps (js ''variables'') of None \<Rightarrow> JUndefined | Some v \<Rightarrow> v) of
                  Inl e \<Rightarrow> (s, proxyError)
                | Inr cacheKey \<Rightarrow>
                    (case upstream of
                       FetchThrows \<Rightarrow> (s, proxyError)
                     | NotOk st statusText \<Rightarrow>
                         if canCarryBody st
                         then (s, \<lparr>status = st,
                                   body = ErrorMessage (js ''API request failed: ''
                                            @ numberToString st @ js '' '' @ statusText),
                                   headers = []\<rparr>)
                         else (s, proxyError)
                     | OkNotJson \<Rightarrow> (s, proxyError)
                     | OkJson result \<Rightarrow>
                         (s, \<lparr>status = 200, body = Json result,
                              headers = (js ''X-Cache'', js ''MISS'')
                                        # rateLimitHeaders rateLimitResult\<rparr>)))))"
  using assms
  by (auto simp: POST_def getProperty_def shouldSkipCache_def Let_def
      split: prod.splits option.splits sum.splits Upstream.splits)


lemma carriesCredentialsE:
  assumes "carriesCredentials request"
  obtains ps publicId secretKey where "jsonBody request = Some (JObj ps)"
    "map_of ps (js ''publicId'') = Some publicId" "truthy publicId"
    "map_of ps (js ''secretKey'') = Some secretKey" "truthy secretKey"
  using assms
  by (auto simp: carriesCredentials_def split: option.splits jsval.splits)

lemma not_hit_headers:
  "map_of ((js ''X-Cache'', js ''MISS'') # hs) (js ''X-Cache'') \<noteq> Some (js ''HIT'')"
  "map_of [(js ''Retry-After'', a), (js ''X-RateLimit-Limit'', b), (js ''X-RateLimit-Remaining'', c),
           (js ''X-RateLimit-Reset'', d)] (js ''X-Cache'') \<noteq> Some (js ''HIT'')"
  by (simp_all add: js_def)

lemma POST_authenticated_cache:
  assumes b: "jsonBody request = Some (JObj ps)"
    "map_of ps (js ''publicId'') = Some publicId" "truthy publicId"
    "map_of ps (js ''secretKey'') = Some secretKey" "truthy secretKey"
  shows "serverCache (fst (POST now later request upstream s)) = serverCache s"
  using routeCheckRateLimit_cache [of now request s]
  by (simp add: POST_authenticated [OF b] Let_def case_prod_unfold
      split: option.splits sum.splits Upstream.splits)

lemma POST_authenticated_frame:
  assumes b: "jsonBody request = Some (JObj ps)"
    "map_of ps (js ''publicId'') = Some publicId" "truthy publicId"
    "map_of ps (js ''secretKey'') = Some secretKey" "truthy secretKey"
  shows "snd (POST now later request upstream (s\<lparr>serverCache := c\<rparr>))
           = snd (POST now later request upstream s)"
  by (simp add: POST_authenticated [OF b] routeCheckRateLimit_frame Let_def case_prod_unfold
      split: option.splits sum.splits Upstream.splits)

lemma POST_authenticated_no_hit:
  assumes b: "jsonBody request = Some (JObj ps)"
    "map_of ps (js ''publicId'') = Some publicId" "truthy publicId"
    "map_of ps (js ''secretKey'') = Some secretKey" "truthy secretKey"
  shows "map_of (headers (snd (POST now later request upstream s))) (js ''X-Cache'')
           \<noteq> Some (js ''HIT'')"
  by (simp add: POST_authenticated [OF b] Let_def case_prod_unfold proxyError_def js_def
      split: option.splits sum.splits Upstream.splits)

text \<open>
  C10. A request whose body carries a truthy \<open>publicId\<close> and a truthy \<open>secretKey\<close>: the
  handler leaves the response cache exactly as it was (no entry written, none touched or
  purged), its response is the same whatever the cache holds, and that response is never
  marked as a cache hit.
\<close>

theorem C10_authenticated_bypasses_cache:
  assumes "carriesCredentials request"
  shows "serverCache (fst (POST now later request upstream s)) = serverCache s
       \<and> snd (POST now later request upstream (s\<lparr>serverCache := c\<rparr>))
           = snd (POST now later request upstream s)
       \<and> map_of (headers (snd (POST now later request upstream s))) (js ''X-Cache'')
           \<noteq> Some (js ''HIT'')"
proof -
  from assms obtain ps publicId secretKey where b: "jsonBody request = Some (JObj ps)"
    "map_of ps (js ''publicId'') = Some publicId" "truthy publicId"
    "map_of ps (js ''secretKey'') = Some secretKey" "truthy secretKey"
    by (rule carriesCredentialsE)
  from POST_authenticated_cache [OF b] POST_authenticated_frame [OF b]
    POST_authenticated_no_hit [OF b]
  show ?thesis by blast
qed

theorem C10_authenticated_bypasses_cache_witness:
  "carriesCredentials
     \<lparr>cfConnectingIp = Some (js ''1.2.3.4''), xForwardedFor = None,
      jsonBody = Some (JObj [(js ''query'', JStr (js ''q'')), (js ''publicId'', JStr (js ''id'')),
                             (js ''secretKey'', JStr (js ''key''))])\<rparr>
   \<and> serverCache (fst (POST 1000 1001
       \<lparr>cfConnectingIp = Some (js ''1.2.3.4''), xForwardedFor = None,
        jsonBody = Some (JObj [(js ''query'', JStr (js ''q'')), (js ''publicId'', JStr (js ''id'')),
                               (js ''secretKey'', JStr (js ''key''))])\<rparr>
       (OkJson (JNum 2))
       \<lparr>serverCache = set_entry 0 (js ''q::'') (JNum 1) None (newServerCache DEFAULT_CONFIG),
        rateLimit = [], lastCleanup = 0\<rparr>))
     = set_entry 0 (js ''q::'') (JNum 1) None (newServerCache DEFAULT_CONFIG)
   \<and> body (snd (POST 1000 1001
       \<lparr>cfConnectingIp = Some (js ''1.2.3.4''), xForwardedFor = None,
        jsonBody = Some (JObj [(js ''query'', JStr (js ''q'')), (js ''publicId'', JStr (js ''id'')),
                               (js ''secretKey'', JStr (js ''key''))])\<rparr>
       (OkJson (JNum 2))
       \<lparr>serverCache = set_entry 0 (js ''q::'') (JNum 1) None (newServerCache DEFAULT_CONFIG),
        rateLimit = [], lastCleanup = 0\<rparr>))
     = Json (JNum 2)"
proof -
  let ?r = "\<lparr>cfConnectingIp = Some (js ''1.2.3.4''), xForwardedFor = None,
      jsonBody = Some (JObj [(js ''query'', JStr (js ''q'')), (js ''publicId'', JStr (js ''id'')),
                             (js ''secretKey'', JStr (js ''key''))])\<rparr>"
  let ?s = "\<lparr>serverCache = set_entry 0 (js ''q::'') (JNum 1) None (newServerCache DEFAULT_CONFIG),
        rateLimit = [], lastCleanup = 0\<rparr>"
  have h: "carriesCredentials ?r"
    by (simp add: carriesCredentials_def js_def)
  have k: "generateKey (JStr (js ''q'')) JUndefined = Inr (js ''q::'')"
    by (simp add: generateKey_def js_def trim_def isWhiteSpace_def)
  have rl: "allowed (snd (routeCheckRateLimit 1000 ?r ?s))"
    by (simp add: routeCheckRateLimit_def cleanupRateLimit_def Let_def)
  have q: "map_of [(js ''query'', JStr (js ''q'')), (js ''publicId'', JStr (js ''id'')),
                   (js ''secretKey'', JStr (js ''key''))] (js ''query'') = Some (JStr (js ''q''))"
     and v: "map_of [(js ''query'', JStr (js ''q'')), (js ''publicId'', JStr (js ''id'')),
                   (js ''secretKey'', JStr (js ''key''))] (js ''variables'') = None"
     and i: "map_of [(js ''query'', JStr (js ''q'')), (js ''publicId'', JStr (js ''id'')),
                   (js ''secretKey'', JStr (js ''key''))] (js ''publicId'') = Some (JStr (js ''id''))"
     and e: "map_of [(js ''query'', JStr (js ''q'')), (js ''publicId'', JStr (js ''id'')),
                   (js ''secretKey'', JStr (js ''key''))] (js ''secretKey'') = Some (JStr (js ''key''))"
    by (simp_all add: js_def)
  have tq: "truthy (JStr (js ''q''))" "truthy (JStr (js ''id''))" "truthy (JStr (js ''key''))"
    by (simp_all add: js_def)
  have jb: "jsonBody ?r = Some (JObj [(js ''query'', JStr (js ''q'')), (js ''publicId'', JStr (js ''id'')),
                   (js ''secretKey'', JStr (js ''key''))])"
    by simp
  have b: "body (snd (POST 1000 1001 ?r (OkJson (JNum 2)) ?s)) = Json (JNum 2)"
    unfolding POST_authenticated [OF jb i tq(2) e tq(3)]
    using rl by (simp only: q v k tq case_prod_unfold Let_def option.case sum.case Upstream.case
        simp_thms if_True if_False snd_conv select_convs)
  from C10_authenticated_bypasses_cache [OF h, of 1000 1001 "OkJson (JNum 2)" ?s] h b
  show ?thesis by simp
qed


end
